theory Spec2Isabelle
  imports Complex_Main "HOL-Library.AList" "HOL-Library.Multiset"
begin

section \<open>Agent planning engine: data model\<close>

text \<open>
  The engine is the class \<open>AgentPlanningEngine\<close>. Its methods are embedded as HOL functions;
  every \<open>throw\<close> is a left injection of a sum type, the mutable locals of a method are threaded
  as explicit state, and the platform services it calls, \<open>uuidv4()\<close>, \<open>new Date()\<close> and
  \<open>JSON.parse\<close>, are parameters of the functions that call them. Logging is left out.
\<close>

subsection \<open>JavaScript numbers\<close>

text \<open>
  A JavaScript number is modelled as a real number or one of the three special values that the
  arithmetic of the engine can produce from finite inputs: \<open>Infinity\<close>, \<open>-Infinity\<close> and \<open>NaN\<close>.
  Rounding, overflow and the sign of zero are not modelled: finite arithmetic is exact and every
  zero is \<open>+0\<close>.
\<close>

datatype number = Fin real | PInf | NInf | NaN

fun js_add :: "number \<Rightarrow> number \<Rightarrow> number" where
  "js_add NaN _ = NaN"
| "js_add _ NaN = NaN"
| "js_add (Fin a) (Fin b) = Fin (a + b)"
| "js_add PInf NInf = NaN"
| "js_add NInf PInf = NaN"
| "js_add PInf _ = PInf"
| "js_add _ PInf = PInf"
| "js_add NInf _ = NInf"
| "js_add _ NInf = NInf"

fun js_neg :: "number \<Rightarrow> number" where
  "js_neg (Fin a) = Fin (- a)"
| "js_neg PInf = NInf"
| "js_neg NInf = PInf"
| "js_neg NaN = NaN"

definition js_sub :: "number \<Rightarrow> number \<Rightarrow> number" where
  "js_sub a b = js_add a (js_neg b)"

fun js_mul :: "number \<Rightarrow> number \<Rightarrow> number" where
  "js_mul NaN _ = NaN"
| "js_mul _ NaN = NaN"
| "js_mul (Fin a) (Fin b) = Fin (a * b)"
| "js_mul (Fin a) PInf = (if a = 0 then NaN else if 0 < a then PInf else NInf)"
| "js_mul (Fin a) NInf = (if a = 0 then NaN else if 0 < a then NInf else PInf)"
| "js_mul PInf (Fin b) = (if b = 0 then NaN else if 0 < b then PInf else NInf)"
| "js_mul NInf (Fin b) = (if b = 0 then NaN else if 0 < b then NInf else PInf)"
| "js_mul PInf PInf = PInf"
| "js_mul PInf NInf = NInf"
| "js_mul NInf PInf = NInf"
| "js_mul NInf NInf = PInf"

fun js_div :: "number \<Rightarrow> number \<Rightarrow> number" where
  "js_div NaN _ = NaN"
| "js_div _ NaN = NaN"
| "js_div (Fin a) (Fin b) =
     (if b \<noteq> 0 then Fin (a / b)
      else if a = 0 then NaN
      else if 0 < a then PInf else NInf)"
| "js_div (Fin a) PInf = Fin 0"
| "js_div (Fin a) NInf = Fin 0"
| "js_div PInf (Fin b) = (if 0 \<le> b then PInf else NInf)"
| "js_div NInf (Fin b) = (if 0 \<le> b then NInf else PInf)"
| "js_div PInf PInf = NaN"
| "js_div PInf NInf = NaN"
| "js_div NInf PInf = NaN"
| "js_div NInf NInf = NaN"

text \<open>\<open>a < b\<close> on numbers: false as soon as one side is \<open>NaN\<close>.\<close>

fun js_lt :: "number \<Rightarrow> number \<Rightarrow> bool" where
  "js_lt NaN _ = False"
| "js_lt _ NaN = False"
| "js_lt (Fin a) (Fin b) = (a < b)"
| "js_lt NInf NInf = False"
| "js_lt NInf _ = True"
| "js_lt _ NInf = False"
| "js_lt PInf _ = False"
| "js_lt _ PInf = True"

definition js_gt :: "number \<Rightarrow> number \<Rightarrow> bool" where
  "js_gt a b = js_lt b a"

fun js_max :: "number \<Rightarrow> number \<Rightarrow> number" where
  "js_max NaN _ = NaN"
| "js_max _ NaN = NaN"
| "js_max a b = (if js_lt a b then b else a)"

fun js_min :: "number \<Rightarrow> number \<Rightarrow> number" where
  "js_min NaN _ = NaN"
| "js_min _ NaN = NaN"
| "js_min a b = (if js_lt b a then b else a)"

text \<open>\<open>Math.max(...xs)\<close>: \<open>-Infinity\<close> for no argument, \<open>NaN\<close> as soon as one argument is.\<close>

definition Math_max :: "number list \<Rightarrow> number" where
  "Math_max xs = fold (\<lambda>x acc. js_max acc x) xs NInf"

subsection \<open>Interfaces\<close>

datatype task_kind = Atomic | Composite

datatype priority_level = Low | Medium | High | Critical

record Task =
  task_id :: string
  task_name :: string
  task_description :: string
  task_type :: task_kind
  task_estimatedDuration :: number
  task_requiredCapabilities :: "string list"
  task_dependencies :: "string list"
  task_priority :: priority_level
  task_successCriteria :: "string list"

record SubGoal =
  sg_id :: string
  sg_description :: string
  sg_tasks :: "Task list"
  sg_dependencies :: "string list"
  sg_estimatedDuration :: number
  sg_successCriteria :: "string list"

datatype dependency_type = Sequential | Parallel | Conditional

record TaskDependency =
  td_taskId :: string
  td_dependsOn :: "string list"
  td_dependencyType :: dependency_type

record TaskPlan =
  goalId :: string
  mainGoal :: string
  subGoals :: "SubGoal list"
  tp_dependencies :: "TaskDependency list"
  tp_estimatedDuration :: number
  tp_requiredCapabilities :: "string list"
  tp_successCriteria :: "string list"
  createdAt :: nat
  version :: nat

record PlanningConstraints =
  maxDuration :: "number option"
  maxCost :: "number option"
  pc_requiredCapabilities :: "string list option"
  excludedCapabilities :: "string list option"
  parallelismLevel :: "number option"
  priorityThreshold :: "priority_level option"

datatype checkpoint_action = Continue | Pause | ReplanAction | Escalate

record ExecutionCheckpoint =
  cp_id :: string
  cp_taskId :: string
  cp_condition :: string
  cp_action :: checkpoint_action

datatype fallback_action = Retry | AlternativeApproach | HumanIntervention | Abort

datatype parameter_value = PString string | PNumber nat

record FallbackStrategy =
  triggerId :: string
  fs_condition :: string
  fs_action :: fallback_action
  parameters :: "(string \<times> parameter_value) list"

datatype resource_type = SingleAgent | MultiAgent

record ResourceEntry =
  ra_requiredCapabilities :: "string list"
  ra_estimatedDuration :: number
  ra_priority :: priority_level
  resourceType :: resource_type

record ExecutionPlan =
  plan_id :: string
  taskPlan :: TaskPlan
  executionOrder :: "string list"
  parallelGroups :: "string list list"
  resourceAllocation :: "string \<rightharpoonup> ResourceEntry"
  checkpoints :: "ExecutionCheckpoint list"
  fallbackStrategies :: "FallbackStrategy list"
  estimatedCost :: number
  estimatedDuration :: number

datatype feedback_status = Completed | Failed | Blocked | InProgress

record ExecutionFeedback =
  fb_taskId :: string
  fb_status :: feedback_status
  actualDuration :: number
  actualCost :: number
  quality :: number
  issues :: "string list"
  suggestions :: "string list"

datatype overall_status = RunCompleted | RunFailed | RunPartial

record ExecutionResults =
  res_planId :: string
  overallStatus :: overall_status
  completedTasks :: "string list"
  failedTasks :: "string list"
  totalDuration :: number
  totalCost :: number
  qualityScore :: number
  lessons :: "string list"

record PerformanceInsights =
  pi_planId :: string
  strengths :: "string list"
  weaknesses :: "string list"
  recommendations :: "string list"
  optimizationOpportunities :: "string list"
  confidenceScore :: number

section \<open>Dependency graph and topological scheduler\<close>

text \<open>
  The graph is a JavaScript \<open>Map<string, string[]>\<close>: keys are kept in the order of their
  first insertion, and \<open>set\<close> on a key that is present replaces its value in place.
\<close>

type_synonym dependency_graph = "(string \<times> string list) list"

definition Map_set :: "dependency_graph \<Rightarrow> string \<Rightarrow> string list \<Rightarrow> dependency_graph" where
  "Map_set g k v = AList.update k v g"

definition Map_get :: "dependency_graph \<Rightarrow> string \<Rightarrow> string list option" where
  "Map_get g k = map_of g k"

definition Map_keys :: "dependency_graph \<Rightarrow> string list" where
  "Map_keys g = map fst g"

text \<open>
  \<open>buildDependencyGraph\<close>: one \<open>graph.set(task.id, task.dependencies || [])\<close> per task, in list
  order. \<open>dependencies\<close> is an array by its type, so \<open>|| []\<close> leaves it as it is.
\<close>

fun buildDependencyGraph_loop :: "dependency_graph \<Rightarrow> Task list \<Rightarrow> dependency_graph" where
  "buildDependencyGraph_loop graph [] = graph"
| "buildDependencyGraph_loop graph (task # tasks) =
     buildDependencyGraph_loop (Map_set graph (task_id task) (task_dependencies task)) tasks"

definition buildDependencyGraph :: "Task list \<Rightarrow> dependency_graph" where
  "buildDependencyGraph tasks = buildDependencyGraph_loop [] tasks"

text \<open>\<open>dependencyGraph.get(taskId) || []\<close>: an id that is no key has no dependencies.\<close>

definition graph_deps :: "dependency_graph \<Rightarrow> string \<Rightarrow> string list" where
  "graph_deps g taskId = (case Map_get g taskId of Some ds \<Rightarrow> ds | None \<Rightarrow> [])"

datatype error = CircularDependency string

text \<open>The three mutable locals of \<open>calculateExecutionOrder\<close> that the closure \<open>visit\<close> updates.\<close>

record visit_state =
  order :: "string list"
  visited :: "string set"
  visiting :: "string set"

function visit :: "dependency_graph \<Rightarrow> visit_state \<Rightarrow> string \<Rightarrow> error + visit_state"
  and visit_deps :: "dependency_graph \<Rightarrow> visit_state \<Rightarrow> string list \<Rightarrow> error + visit_state"
where
  "visit g st taskId =
     (if taskId \<in> visiting st then Inl (CircularDependency taskId)
      else if taskId \<in> visited st then Inr st
      else (case visit_deps g (st\<lparr>visiting := insert taskId (visiting st)\<rparr>) (graph_deps g taskId) of
              Inl e \<Rightarrow> Inl e
            | Inr st' \<Rightarrow> Inr (st'\<lparr>visiting := visiting st' - {taskId},
                                 visited := insert taskId (visited st'),
                                 order := order st' @ [taskId]\<rparr>)))"
| "visit_deps g st [] = Inr st"
| "visit_deps g st (dep # deps) =
     (case visit g st dep of
        Inl e \<Rightarrow> Inl e
      | Inr st' \<Rightarrow> visit_deps g st' deps)"
  by pat_completeness auto

lemma Map_get_None_iff: "Map_get g k = None \<longleftrightarrow> k \<notin> set (Map_keys g)"
  by (simp add: Map_get_def Map_keys_def map_of_eq_None_iff)

lemma graph_deps_no_key: "k \<notin> set (Map_keys g) \<Longrightarrow> graph_deps g k = []"
  using Map_get_None_iff[of g k] by (simp add: graph_deps_def)

text \<open>A call that returns leaves the in-progress set as it found it.\<close>

lemma visiting_kept_dom:
  "visit_visit_deps_dom (Inl (g, st, t)) \<Longrightarrow> visit g st t = Inr st' \<Longrightarrow>
     visiting st' = visiting st"
  "visit_visit_deps_dom (Inr (g, st, ds)) \<Longrightarrow> visit_deps g st ds = Inr st'' \<Longrightarrow>
     visiting st'' = visiting st"
proof (induction g st t and g st ds arbitrary: st' and st'' rule: visit_visit_deps.pinduct)
  case (1 g st taskId)
  show ?case
  proof (cases "taskId \<in> visiting st")
    case True
    with 1 show ?thesis by (simp add: visit.psimps)
  next
    case nv: False
    show ?thesis
    proof (cases "taskId \<in> visited st")
      case True
      with nv 1 show ?thesis by (simp add: visit.psimps)
    next
      case False
      let ?st1 = "st\<lparr>visiting := insert taskId (visiting st)\<rparr>"
      from 1(1,3) nv False obtain st2 where
        r: "visit_deps g ?st1 (graph_deps g taskId) = Inr st2"
        and s: "st' = st2\<lparr>visiting := visiting st2 - {taskId},
                 visited := insert taskId (visited st2), order := order st2 @ [taskId]\<rparr>"
        by (simp add: visit.psimps split: sum.splits)
      from 1(2)[OF nv False r] have "visiting st2 = insert taskId (visiting st)" by simp
      with s nv show ?thesis by simp
    qed
  qed
next
  case (2 g st)
  then show ?case by (simp add: visit_deps.psimps)
next
  case (3 g st dep deps)
  from 3(1,4) obtain st1 where a: "visit g st dep = Inr st1"
    and b: "visit_deps g st1 deps = Inr st''"
    by (simp add: visit_deps.psimps split: sum.splits)
  from 3(2)[OF a] 3(3)[OF a b] show ?case by simp
qed

text \<open>
  Every call to \<open>visit\<close> that goes on adds a key of the graph to the in-progress set, or has
  no dependency to visit: the recursion ends on every graph, cyclic or not.
\<close>

termination visit
proof (relation "inv_image (less_than <*lex*> less_than)
     (\<lambda>x. case x of
         Inl (g, st, t) \<Rightarrow> (card (set (Map_keys g) - visiting st), 1)
       | Inr (g, st, ds) \<Rightarrow> (card (set (Map_keys g) - visiting st), 2 * length ds))", goal_cases)
  case 1
  show ?case by (intro wf_inv_image wf_lex_prod wf_less_than)
next
  case (2 g st taskId)
  show ?case
  proof (cases "taskId \<in> set (Map_keys g)")
    case False
    then have "set (Map_keys g) - insert taskId (visiting st) = set (Map_keys g) - visiting st"
      by auto
    with False show ?thesis by (simp add: graph_deps_no_key)
  next
    case True
    with 2 have "set (Map_keys g) - insert taskId (visiting st) \<subset> set (Map_keys g) - visiting st"
      by auto
    then have "card (set (Map_keys g) - insert taskId (visiting st))
                 < card (set (Map_keys g) - visiting st)"
      by (intro psubset_card_mono) auto
    then show ?thesis by simp
  qed
next
  case (3 g st dep deps)
  show ?case by simp
next
  case (4 g st dep deps st')
  then show ?case by (simp add: visiting_kept_dom(1))
qed

declare visit.simps [simp del]

text \<open>The loop over \<open>dependencyGraph.keys()\<close>.\<close>

fun visit_keys :: "dependency_graph \<Rightarrow> visit_state \<Rightarrow> string list \<Rightarrow> error + visit_state" where
  "visit_keys g st [] = Inr st"
| "visit_keys g st (taskId # rest) =
     (if taskId \<notin> visited st
      then (case visit g st taskId of
              Inl e \<Rightarrow> Inl e
            | Inr st' \<Rightarrow> visit_keys g st' rest)
      else visit_keys g st rest)"

definition calculateExecutionOrder ::
  "dependency_graph \<Rightarrow> PlanningConstraints \<Rightarrow> error + string list" where
  "calculateExecutionOrder dependencyGraph constraints =
     (case visit_keys dependencyGraph \<lparr>order = [], visited = {}, visiting = {}\<rparr>
             (Map_keys dependencyGraph) of
        Inl e \<Rightarrow> Inl e
      | Inr st \<Rightarrow> Inr (order st))"

section \<open>Parallel groups\<close>

definition canRunInParallel :: "string \<Rightarrow> string \<Rightarrow> dependency_graph \<Rightarrow> bool" where
  "canRunInParallel taskId1 taskId2 dependencyGraph =
     (let deps1 = graph_deps dependencyGraph taskId1;
          deps2 = graph_deps dependencyGraph taskId2
      in taskId2 \<notin> set deps1 \<and> taskId1 \<notin> set deps2)"

text \<open>
  The inner loop of \<open>identifyParallelGroups\<close>: every task not yet processed is compared with
  the task that started the group, \<open>task.id\<close>, and with no other member.
\<close>

fun group_scan ::
  "dependency_graph \<Rightarrow> string \<Rightarrow> string list \<times> string set \<Rightarrow> Task list \<Rightarrow> string list \<times> string set"
where
  "group_scan g taskId (grp, processed) [] = (grp, processed)"
| "group_scan g taskId (grp, processed) (otherTask # rest) =
     (if task_id otherTask \<in> processed then group_scan g taskId (grp, processed) rest
      else if canRunInParallel taskId (task_id otherTask) g
      then group_scan g taskId
             (grp @ [task_id otherTask], insert (task_id otherTask) processed) rest
      else group_scan g taskId (grp, processed) rest)"

fun identifyParallelGroups_loop ::
  "Task list \<Rightarrow> dependency_graph \<Rightarrow> string list list \<times> string set \<Rightarrow> Task list \<Rightarrow>
     string list list \<times> string set"
where
  "identifyParallelGroups_loop tasks g (groups, processed) [] = (groups, processed)"
| "identifyParallelGroups_loop tasks g (groups, processed) (task # rest) =
     (if task_id task \<in> processed then identifyParallelGroups_loop tasks g (groups, processed) rest
      else (case group_scan g (task_id task)
                   ([task_id task], insert (task_id task) processed) tasks of
              (grp, processed') \<Rightarrow>
                identifyParallelGroups_loop tasks g
                  (if length grp > 1 then groups @ [grp] else groups, processed') rest))"

definition identifyParallelGroups :: "Task list \<Rightarrow> dependency_graph \<Rightarrow> string list list" where
  "identifyParallelGroups tasks dependencyGraph =
     fst (identifyParallelGroups_loop tasks dependencyGraph ([], {}) tasks)"

section \<open>Resources, checkpoints, fallbacks and estimates\<close>

fun allocateResources_loop ::
  "(string \<rightharpoonup> ResourceEntry) \<Rightarrow> Task list \<Rightarrow> (string \<rightharpoonup> ResourceEntry)" where
  "allocateResources_loop allocation [] = allocation"
| "allocateResources_loop allocation (task # tasks) =
     allocateResources_loop
       (allocation(task_id task \<mapsto>
          \<lparr>ra_requiredCapabilities = task_requiredCapabilities task,
           ra_estimatedDuration = task_estimatedDuration task,
           ra_priority = task_priority task,
           resourceType = (if task_type task = Atomic then SingleAgent else MultiAgent)\<rparr>))
       tasks"

definition allocateResources ::
  "Task list \<Rightarrow> PlanningConstraints \<Rightarrow> (string \<rightharpoonup> ResourceEntry)" where
  "allocateResources tasks constraints = allocateResources_loop Map.empty tasks"

text \<open>
  \<open>uuidv4\<close> is the sequence of identifiers that successive calls of \<open>uuidv4()\<close> return:
  \<open>createCheckpoints\<close> makes the first calls, one for each checkpoint in the order they are pushed.
\<close>

definition createCheckpoints ::
  "Task list \<Rightarrow> string list \<Rightarrow> (nat \<Rightarrow> string) \<Rightarrow> ExecutionCheckpoint list" where
  "createCheckpoints tasks executionOrder' uuidv4 =
     (let criticalTasks = filter (\<lambda>t. task_priority t = Critical) tasks;
          midpoint = length executionOrder' div 2;
          checkpoints =
            map (\<lambda>(i, task). \<lparr>cp_id = uuidv4 i, cp_taskId = task_id task,
                               cp_condition = ''task_completion'', cp_action = Pause\<rparr>)
                (zip [0 ..< length criticalTasks] criticalTasks)
      in if length executionOrder' > 2
         then checkpoints @
                [\<lparr>cp_id = uuidv4 (length criticalTasks), cp_taskId = executionOrder' ! midpoint,
                  cp_condition = ''progress_review'', cp_action = Continue\<rparr>]
         else checkpoints)"

definition defineFallbackStrategies :: "Task list \<Rightarrow> FallbackStrategy list" where
  "defineFallbackStrategies tasks =
     map (\<lambda>task.
            if task_priority task = Critical
            then \<lparr>triggerId = task_id task, fs_condition = ''task_failure'',
                  fs_action = HumanIntervention,
                  parameters = [(''escalationLevel'', PString ''immediate'')]\<rparr>
            else \<lparr>triggerId = task_id task, fs_condition = ''task_failure'',
                  fs_action = Retry,
                  parameters = [(''maxRetries'', PNumber 3), (''backoffMs'', PNumber 5000)]\<rparr>)
         tasks"

record Estimates =
  duration :: number
  cost :: number

text \<open>The loop of \<open>calculateEstimates\<close> over the parallel groups, adding to \<open>totalDuration\<close>.\<close>

fun add_group_durations :: "Task list \<Rightarrow> number \<Rightarrow> string list list \<Rightarrow> number" where
  "add_group_durations tasks acc [] = acc"
| "add_group_durations tasks acc (grp # groups) =
     (let groupTasks = filter (\<lambda>t. task_id t \<in> set grp) tasks;
          maxDuration = Math_max (map task_estimatedDuration groupTasks)
      in add_group_durations tasks (js_add acc maxDuration) groups)"

definition calculateEstimates :: "Task list \<Rightarrow> string list list \<Rightarrow> Estimates" where
  "calculateEstimates tasks parallelGroups' =
     (let sequentialTasks =
            filter (\<lambda>t. \<not> list_ex (\<lambda>grp. task_id t \<in> set grp) parallelGroups') tasks;
          totalDuration =
            js_add (Fin 0)
              (fold (\<lambda>task sum. js_add sum (task_estimatedDuration task)) sequentialTasks (Fin 0));
          totalDuration' = add_group_durations tasks totalDuration parallelGroups';
          totalCost = js_mul (Fin (real (length tasks))) (Fin (5 / 100))
      in \<lparr>duration = totalDuration', cost = totalCost\<rparr>)"

text \<open>\<open>[...new Set(xs)]\<close>: the elements of \<open>xs\<close> in the order of their first occurrence.\<close>

definition Set_spread :: "string list \<Rightarrow> string list" where
  "Set_spread xs = fold (\<lambda>x s. if x \<in> set s then s else s @ [x]) xs []"

section \<open>Creating an execution plan\<close>

text \<open>
  \<open>createExecutionPlan\<close> catches whatever its steps throw and throws
  \<open>Failed to create execution plan: <message>\<close>. The only step that throws is the scheduler.
  After the checkpoints, \<open>uuidv4()\<close> is called for the plan's \<open>id\<close> and then for \<open>goalId\<close>;
  \<open>now\<close> is the value of \<open>new Date()\<close>.
\<close>

datatype plan_error = FailedToCreateExecutionPlan error

definition createExecutionPlan ::
  "Task list \<Rightarrow> PlanningConstraints \<Rightarrow> (nat \<Rightarrow> string) \<Rightarrow> nat \<Rightarrow> plan_error + ExecutionPlan" where
  "createExecutionPlan tasks constraints uuidv4 now =
     (let dependencyGraph = buildDependencyGraph tasks
      in case calculateExecutionOrder dependencyGraph constraints of
           Inl e \<Rightarrow> Inl (FailedToCreateExecutionPlan e)
         | Inr executionOrder' \<Rightarrow>
             (let parallelGroups' = identifyParallelGroups tasks dependencyGraph;
                  resourceAllocation' = allocateResources tasks constraints;
                  checkpoints' = createCheckpoints tasks executionOrder' uuidv4;
                  fallbackStrategies' = defineFallbackStrategies tasks;
                  estimates = calculateEstimates tasks parallelGroups'
              in Inr \<lparr>plan_id = uuidv4 (length checkpoints'),
                      taskPlan =
                        \<lparr>goalId = uuidv4 (Suc (length checkpoints')),
                         mainGoal = ''Generated from tasks'',
                         subGoals = [],
                         tp_dependencies = [],
                         tp_estimatedDuration = duration estimates,
                         tp_requiredCapabilities =
                           Set_spread (concat (map task_requiredCapabilities tasks)),
                         tp_successCriteria =
                           Set_spread (concat (map task_successCriteria tasks)),
                         createdAt = now,
                         version = 1\<rparr>,
                      executionOrder = executionOrder',
                      parallelGroups = parallelGroups',
                      resourceAllocation = resourceAllocation',
                      checkpoints = checkpoints',
                      fallbackStrategies = fallbackStrategies',
                      estimatedCost = cost estimates,
                      estimatedDuration = duration estimates\<rparr>))"

section \<open>Adapting a plan\<close>

datatype severity_level = HighSeverity | MediumSeverity

record FeedbackImpact =
  severity :: severity_level
  affectedTasks :: "string list"
  timelineImpact :: number
  costImpact :: number

text \<open>\<open>Array.prototype.indexOf\<close>: the first position of the element, \<open>-1\<close> when it is absent.\<close>

fun indexOf :: "string list \<Rightarrow> string \<Rightarrow> int" where
  "indexOf [] x = - 1"
| "indexOf (y # ys) x =
     (if y = x then 0 else (let i = indexOf ys x in if i < 0 then - 1 else i + 1))"

definition findAffectedTasks :: "ExecutionPlan \<Rightarrow> string \<Rightarrow> string list" where
  "findAffectedTasks plan failedTaskId =
     filter (\<lambda>taskId. indexOf (executionOrder plan) taskId > indexOf (executionOrder plan) failedTaskId)
            (executionOrder plan)"

definition analyzeFeedbackImpact :: "ExecutionPlan \<Rightarrow> ExecutionFeedback \<Rightarrow> FeedbackImpact" where
  "analyzeFeedbackImpact plan feedback =
     \<lparr>severity = (if fb_status feedback = Failed then HighSeverity else MediumSeverity),
      affectedTasks = findAffectedTasks plan (fb_taskId feedback),
      timelineImpact =
        js_sub (actualDuration feedback)
          (js_div (estimatedDuration plan) (Fin (real (length (executionOrder plan))))),
      costImpact =
        js_sub (actualCost feedback)
          (js_div (estimatedCost plan) (Fin (real (length (executionOrder plan)))))\<rparr>"

datatype strategy_kind = Replan | Reorder | AdjustEstimates

datatype strategy_scope = Full | Partial | Minimal

record AdaptationStrategy =
  strategy_type :: strategy_kind
  scope :: strategy_scope

definition determineAdaptationStrategy ::
  "FeedbackImpact \<Rightarrow> ExecutionFeedback \<Rightarrow> AdaptationStrategy" where
  "determineAdaptationStrategy impact feedback =
     (if fb_status feedback = Failed \<and> severity impact = HighSeverity
      then \<lparr>strategy_type = Replan, scope = Full\<rparr>
      else if fb_status feedback = Blocked
      then \<lparr>strategy_type = Reorder, scope = Partial\<rparr>
      else \<lparr>strategy_type = AdjustEstimates, scope = Minimal\<rparr>)"

text \<open>
  \<open>applyAdaptations\<close> works on a shallow copy of the plan. The \<open>reorder\<close> case changes the
  array that the copy shares with the plan it was given; the function below is the plan that is
  returned.
\<close>

definition applyAdaptations ::
  "ExecutionPlan \<Rightarrow> AdaptationStrategy \<Rightarrow> ExecutionFeedback \<Rightarrow> ExecutionPlan" where
  "applyAdaptations plan strategy feedback =
     (case strategy_type strategy of
        Replan \<Rightarrow>
          plan\<lparr>executionOrder := filter (\<lambda>i. i \<noteq> fb_taskId feedback) (executionOrder plan)\<rparr>
      | Reorder \<Rightarrow>
          (let taskIndex = indexOf (executionOrder plan) (fb_taskId feedback)
           in if taskIndex > - 1
              then plan\<lparr>executionOrder :=
                          take (nat taskIndex) (executionOrder plan) @
                          drop (Suc (nat taskIndex)) (executionOrder plan) @
                          [fb_taskId feedback]\<rparr>
              else plan)
      | AdjustEstimates \<Rightarrow>
          plan\<lparr>estimatedDuration :=
                 js_mul (estimatedDuration plan)
                   (js_div (actualDuration feedback)
                      (js_div (estimatedDuration plan)
                         (Fin (real (length (executionOrder plan))))))\<rparr>)"

definition recalculateEstimates :: "ExecutionPlan \<Rightarrow> ExecutionFeedback \<Rightarrow> Estimates" where
  "recalculateEstimates plan feedback =
     (let adjustmentFactor =
            js_div (actualDuration feedback)
              (js_div (estimatedDuration plan) (Fin (real (length (executionOrder plan)))))
      in \<lparr>duration = js_mul (estimatedDuration plan) adjustmentFactor,
          cost = js_mul (estimatedCost plan) adjustmentFactor\<rparr>)"

text \<open>\<open>new_id\<close> is what the call of \<open>uuidv4()\<close> in \<open>adaptPlan\<close> returns.\<close>

definition adaptPlan :: "ExecutionPlan \<Rightarrow> ExecutionFeedback \<Rightarrow> string \<Rightarrow> ExecutionPlan" where
  "adaptPlan currentPlan feedback new_id =
     (let impact = analyzeFeedbackImpact currentPlan feedback;
          adaptationStrategy = determineAdaptationStrategy impact feedback;
          adaptedPlan = applyAdaptations currentPlan adaptationStrategy feedback;
          newEstimates = recalculateEstimates adaptedPlan feedback
      in adaptedPlan\<lparr>estimatedCost := cost newEstimates,
                      estimatedDuration := duration newEstimates,
                      plan_id := new_id\<rparr>)"

section \<open>Reflecting on performance\<close>

record PerformanceAnalysis =
  pa_strengths :: "string list"
  pa_weaknesses :: "string list"
  optimizations :: "string list"

text \<open>The local \<open>successRate\<close> of \<open>analyzePerformance\<close>.\<close>

definition successRate :: "ExecutionResults \<Rightarrow> number" where
  "successRate results =
     js_div (Fin (real (length (completedTasks results))))
            (Fin (real (length (completedTasks results) + length (failedTasks results))))"

definition analyzePerformance :: "ExecutionResults \<Rightarrow> PerformanceAnalysis" where
  "analyzePerformance results =
     \<lparr>pa_strengths =
        (if js_gt (successRate results) (Fin (8 / 10))
         then [''High success rate'', ''Good task completion''] else []),
      pa_weaknesses =
        (if js_lt (successRate results) (Fin (6 / 10))
         then [''Low success rate'', ''Task execution issues''] else []),
      optimizations =
        (if js_lt (qualityScore results) (Fin (7 / 10))
         then [''Improve task quality'', ''Better resource allocation''] else [])\<rparr>"

definition identifyPerformancePatterns :: "ExecutionResults \<Rightarrow> string list" where
  "identifyPerformancePatterns results =
     (if js_gt (totalDuration results)
           (js_mul (Fin (real (length (completedTasks results)))) (Fin 60))
      then [''Tasks taking longer than expected''] else []) @
     (if length (failedTasks results) > 0
      then [''Task failure pattern detected''] else [])"

definition generateRecommendations :: "PerformanceAnalysis \<Rightarrow> string list \<Rightarrow> string list" where
  "generateRecommendations analysis patterns =
     (if ''Low success rate'' \<in> set (pa_weaknesses analysis)
      then [''Review task complexity and break down further''] else []) @
     (if ''Tasks taking longer than expected'' \<in> set patterns
      then [''Adjust duration estimates and add buffer time''] else [])"

definition calculateConfidenceScore :: "PerformanceAnalysis \<Rightarrow> string list \<Rightarrow> number" where
  "calculateConfidenceScore analysis patterns =
     (let score = Fin (8 / 10);
          score' = (if length (pa_strengths analysis) > length (pa_weaknesses analysis)
                    then js_add score (Fin (1 / 10)) else js_sub score (Fin (1 / 10)));
          score'' = (if length patterns > 2 then js_sub score' (Fin (2 / 10)) else score')
      in js_max (Fin (1 / 10)) (js_min (Fin 1) score''))"

definition reflectOnPerformance :: "ExecutionResults \<Rightarrow> PerformanceInsights" where
  "reflectOnPerformance results =
     (let performanceAnalysis = analyzePerformance results;
          patterns = identifyPerformancePatterns results;
          recommendations' = generateRecommendations performanceAnalysis patterns;
          confidenceScore' = calculateConfidenceScore performanceAnalysis patterns
      in \<lparr>pi_planId = res_planId results,
          strengths = pa_strengths performanceAnalysis,
          weaknesses = pa_weaknesses performanceAnalysis,
          recommendations = recommendations',
          optimizationOpportunities = optimizations performanceAnalysis,
          confidenceScore = confidenceScore'\<rparr>)"

section \<open>Validating a decomposition\<close>

text \<open>
  What \<open>JSON.parse\<close> returns. An object is the list of its own properties; a property read
  takes the first entry of the key.
\<close>

datatype json =
  JNull | JBool bool | JNum number | JStr string | JArr "json list" | JObj "(string \<times> json) list"

text \<open>
  The reasons for which \<open>validateDecomposition\<close> throws: the \<open>SyntaxError\<close> of \<open>JSON.parse\<close>,
  the \<open>TypeError\<close> of a property read on \<open>null\<close> or of \<open>for ... of\<close> over a value that is
  not iterable, and the four errors it throws itself. The \<open>catch\<close> block wraps each of them as
  \<open>Invalid decomposition format: <message>\<close>.
\<close>

datatype validation_failure =
  SyntaxError
| TypeError
| MissingOrInvalidSubGoals
| MissingOrInvalidEstimatedDuration
| InvalidSubGoal json
| InvalidTask json

datatype validation_error = InvalidDecompositionFormat validation_failure

text \<open>
  \<open>v.k\<close> for the property names that the validator reads (\<open>subGoals\<close>, \<open>estimatedDuration\<close>,
  \<open>id\<close>, \<open>description\<close>, \<open>tasks\<close>, \<open>name\<close>, \<open>type\<close>), none of which is inherited by a
  parsed value: \<open>None\<close> is \<open>undefined\<close>.
\<close>

definition get_prop :: "json \<Rightarrow> string \<Rightarrow> validation_failure + json option" where
  "get_prop v k =
     (case v of
        JNull \<Rightarrow> Inl TypeError
      | JObj kvs \<Rightarrow> Inr (map_of kvs k)
      | _ \<Rightarrow> Inr None)"

fun truthy :: "json option \<Rightarrow> bool" where
  "truthy None = False"
| "truthy (Some JNull) = False"
| "truthy (Some (JBool b)) = b"
| "truthy (Some (JNum n)) = (n \<noteq> Fin 0 \<and> n \<noteq> NaN)"
| "truthy (Some (JStr s)) = (s \<noteq> [])"
| "truthy (Some (JArr xs)) = True"
| "truthy (Some (JObj kvs)) = True"

fun Array_isArray :: "json option \<Rightarrow> bool" where
  "Array_isArray (Some (JArr xs)) = True"
| "Array_isArray _ = False"

fun typeof_number :: "json option \<Rightarrow> bool" where
  "typeof_number (Some (JNum n)) = True"
| "typeof_number _ = False"

text \<open>
  The values that \<open>for (const x of v)\<close> runs over: the elements of an array, the characters of
  a string, and a \<open>TypeError\<close> for anything else.
\<close>

fun iterate :: "json option \<Rightarrow> validation_failure + json list" where
  "iterate (Some (JArr xs)) = Inr xs"
| "iterate (Some (JStr s)) = Inr (map (\<lambda>c. JStr [c]) s)"
| "iterate _ = Inl TypeError"

definition validate_task :: "json \<Rightarrow> validation_failure + unit" where
  "validate_task task =
     (case get_prop task ''id'' of
        Inl e \<Rightarrow> Inl e
      | Inr i \<Rightarrow>
          if \<not> truthy i then Inl (InvalidTask task)
          else (case get_prop task ''name'' of
                  Inl e \<Rightarrow> Inl e
                | Inr n \<Rightarrow>
                    if \<not> truthy n then Inl (InvalidTask task)
                    else (case get_prop task ''type'' of
                            Inl e \<Rightarrow> Inl e
                          | Inr t \<Rightarrow>
                              if \<not> truthy t then Inl (InvalidTask task) else Inr ())))"

fun validate_tasks :: "json list \<Rightarrow> validation_failure + unit" where
  "validate_tasks [] = Inr ()"
| "validate_tasks (task # rest) =
     (case validate_task task of
        Inl e \<Rightarrow> Inl e
      | Inr u \<Rightarrow> validate_tasks rest)"

definition validate_subGoal :: "json \<Rightarrow> validation_failure + unit" where
  "validate_subGoal subGoal =
     (case get_prop subGoal ''id'' of
        Inl e \<Rightarrow> Inl e
      | Inr i \<Rightarrow>
          if \<not> truthy i then Inl (InvalidSubGoal subGoal)
          else (case get_prop subGoal ''description'' of
                  Inl e \<Rightarrow> Inl e
                | Inr d \<Rightarrow>
                    if \<not> truthy d then Inl (InvalidSubGoal subGoal)
                    else (case get_prop subGoal ''tasks'' of
                            Inl e \<Rightarrow> Inl e
                          | Inr ts \<Rightarrow>
                              if \<not> truthy ts then Inl (InvalidSubGoal subGoal)
                              else (case iterate ts of
                                      Inl e \<Rightarrow> Inl e
                                    | Inr tasks \<Rightarrow> validate_tasks tasks))))"

fun validate_subGoals :: "json list \<Rightarrow> validation_failure + unit" where
  "validate_subGoals [] = Inr ()"
| "validate_subGoals (subGoal # rest) =
     (case validate_subGoal subGoal of
        Inl e \<Rightarrow> Inl e
      | Inr u \<Rightarrow> validate_subGoals rest)"

text \<open>The body of the \<open>try\<close> block after \<open>JSON.parse\<close>.\<close>

definition validate_parsed :: "json \<Rightarrow> validation_failure + unit" where
  "validate_parsed parsed =
     (case get_prop parsed ''subGoals'' of
        Inl e \<Rightarrow> Inl e
      | Inr sgs \<Rightarrow>
          if \<not> truthy sgs \<or> \<not> Array_isArray sgs then Inl MissingOrInvalidSubGoals
          else (case get_prop parsed ''estimatedDuration'' of
                  Inl e \<Rightarrow> Inl e
                | Inr d \<Rightarrow>
                    if \<not> truthy d \<or> \<not> typeof_number d
                    then Inl MissingOrInvalidEstimatedDuration
                    else (case iterate sgs of
                            Inl e \<Rightarrow> Inl e
                          | Inr subGoals' \<Rightarrow> validate_subGoals subGoals')))"

text \<open>
  \<open>JSON_parse\<close> is the platform's parser, \<open>None\<close> where it throws. A payload that passes is
  returned as it was parsed.
\<close>

definition validateDecomposition ::
  "(string \<Rightarrow> json option) \<Rightarrow> string \<Rightarrow> validation_error + json" where
  "validateDecomposition JSON_parse content =
     (case JSON_parse content of
        None \<Rightarrow> Inl (InvalidDecompositionFormat SyntaxError)
      | Some parsed \<Rightarrow>
          (case validate_parsed parsed of
             Inl e \<Rightarrow> Inl (InvalidDecompositionFormat e)
           | Inr u \<Rightarrow> Inr parsed))"

section \<open>Properties of a schedule\<close>

text \<open>
  The edges of the dependency graph: \<open>(t, d)\<close> when \<open>d\<close> is listed among the dependencies that
  the graph holds for its key \<open>t\<close>. The graph has a cycle when this relation is not acyclic, and
  a task lies on a cycle when it reaches itself along one edge or more.
\<close>

definition dep_edge_list :: "dependency_graph \<Rightarrow> (string \<times> string) list" where
  "dep_edge_list g = concat (map (\<lambda>t. map (Pair t) (graph_deps g t)) (Map_keys g))"

definition dep_edges :: "dependency_graph \<Rightarrow> (string \<times> string) set" where
  "dep_edges g = set (dep_edge_list g)"

text \<open>\<open>d\<close> occurs in \<open>xs\<close> before the first occurrence of \<open>t\<close>.\<close>

definition appears_before :: "string \<Rightarrow> string \<Rightarrow> string list \<Rightarrow> bool" where
  "appears_before d t xs \<longleftrightarrow> d \<in> set (takeWhile (\<lambda>x. x \<noteq> t) xs)"

text \<open>
  Re-checking an execution order against the dependencies that the tasks declare: the pairs
  of a task and one of its dependencies for which the dependency does not come first.
\<close>

definition dependency_violations :: "Task list \<Rightarrow> string list \<Rightarrow> (string \<times> string) list" where
  "dependency_violations tasks xs =
     filter (\<lambda>(t, d). \<not> (t \<in> set xs \<and> appears_before d t xs))
       (concat (map (\<lambda>task. map (Pair (task_id task)) (task_dependencies task)) tasks))"

text \<open>The invariant of the traversal.\<close>

definition visit_inv :: "dependency_graph \<Rightarrow> visit_state \<Rightarrow> bool" where
  "visit_inv g st \<longleftrightarrow>
     visited st = set (order st) \<and> distinct (order st) \<and> visited st \<inter> visiting st = {} \<and>
     (\<forall>t\<in>visited st. \<forall>d\<in>set (graph_deps g t). appears_before d t (order st))"

section \<open>What the validator accepts\<close>

text \<open>
  A task is well formed when it is an object whose \<open>id\<close>, \<open>name\<close> and \<open>type\<close> are truthy; a
  subgoal when it is an object whose \<open>id\<close> and \<open>description\<close> are truthy and whose \<open>tasks\<close>
  is a list of well-formed tasks; a decomposition when it is an object whose \<open>subGoals\<close> is a
  list of well-formed subgoals and whose \<open>estimatedDuration\<close> is a number other than \<open>0\<close>
  and \<open>NaN\<close>.
\<close>

definition well_formed_task :: "json \<Rightarrow> bool" where
  "well_formed_task task =
     (case task of
        JObj kvs \<Rightarrow>
          truthy (map_of kvs ''id'') \<and> truthy (map_of kvs ''name'') \<and> truthy (map_of kvs ''type'')
      | _ \<Rightarrow> False)"

definition well_formed_subGoal :: "json \<Rightarrow> bool" where
  "well_formed_subGoal subGoal =
     (case subGoal of
        JObj kvs \<Rightarrow>
          truthy (map_of kvs ''id'') \<and> truthy (map_of kvs ''description'') \<and>
          (case map_of kvs ''tasks'' of
             Some (JArr tasks) \<Rightarrow> list_all well_formed_task tasks
           | _ \<Rightarrow> False)
      | _ \<Rightarrow> False)"

definition well_formed_decomposition :: "json \<Rightarrow> bool" where
  "well_formed_decomposition parsed =
     (case parsed of
        JObj kvs \<Rightarrow>
          (case map_of kvs ''subGoals'' of
             Some (JArr subGoals') \<Rightarrow>
               (case map_of kvs ''estimatedDuration'' of
                  Some (JNum n) \<Rightarrow> n \<noteq> Fin 0 \<and> n \<noteq> NaN
                | _ \<Rightarrow> False) \<and>
               list_all well_formed_subGoal subGoals'
           | _ \<Rightarrow> False)
      | _ \<Rightarrow> False)"

section \<open>Properties of parallel groups and plans\<close>

text \<open>Every member of the group after the first has no edge to or from the first.\<close>

definition starter_independent :: "dependency_graph \<Rightarrow> string list \<Rightarrow> bool" where
  "starter_independent g grp =
     (case grp of [] \<Rightarrow> False | f # rest \<Rightarrow> list_all (\<lambda>x. canRunInParallel f x g) rest)"

text \<open>
  A plan without what \<open>uuidv4()\<close> and \<open>new Date()\<close> put into it: the plan's id, the goal id,
  the creation time and the ids of the checkpoints.
\<close>

definition without_ids :: "ExecutionPlan \<Rightarrow> ExecutionPlan" where
  "without_ids plan =
     plan\<lparr>plan_id := [],
          taskPlan := (taskPlan plan)\<lparr>goalId := [], createdAt := 0\<rparr>,
          checkpoints := map (\<lambda>c. c\<lparr>cp_id := []\<rparr>) (checkpoints plan)\<rparr>"

section \<open>Example inputs\<close>

definition example_task :: "string \<Rightarrow> real \<Rightarrow> string list \<Rightarrow> Task" where
  "example_task i d deps =
     \<lparr>task_id = i, task_name = i, task_description = [], task_type = Atomic,
      task_estimatedDuration = Fin d, task_requiredCapabilities = [],
      task_dependencies = deps, task_priority = Medium, task_successCriteria = []\<rparr>"

text \<open>\<open>A\<close> (10 minutes), \<open>B\<close> (20 minutes, after \<open>A\<close>) and \<open>C\<close> (5 minutes).\<close>

definition tasks_ABC :: "Task list" where
  "tasks_ABC = [example_task ''A'' 10 [], example_task ''B'' 20 [''A''], example_task ''C'' 5 []]"

text \<open>Two tasks that wait for each other.\<close>

definition tasks_cycle :: "Task list" where
  "tasks_cycle = [example_task ''A'' 10 [''B''], example_task ''B'' 20 [''A'']]"

text \<open>\<open>C\<close> depends on \<open>B\<close>, and neither has an edge to or from \<open>A\<close>.\<close>

definition tasks_chain_after_free :: "Task list" where
  "tasks_chain_after_free =
     [example_task ''A'' 10 [], example_task ''B'' 20 [], example_task ''C'' 5 [''B'']]"

text \<open>A task whose dependency \<open>X\<close> is no task of the list.\<close>

definition tasks_dangling :: "Task list" where
  "tasks_dangling = [example_task ''A'' 10 [''X'']]"

definition no_constraints :: PlanningConstraints where
  "no_constraints =
     \<lparr>maxDuration = None, maxCost = None, pc_requiredCapabilities = None,
      excludedCapabilities = None, parallelismLevel = None, priorityThreshold = None\<rparr>"

definition example_uuidv4 :: "nat \<Rightarrow> string" where
  "example_uuidv4 n = ''uuid-'' @ replicate n (CHR ''x'')"

text \<open>A plan of two tasks, and a feedback event for the first of them.\<close>

definition example_plan :: ExecutionPlan where
  "example_plan =
     \<lparr>plan_id = ''plan-1'',
      taskPlan = \<lparr>goalId = ''goal-1'', mainGoal = ''Generated from tasks'', subGoals = [],
                  tp_dependencies = [], tp_estimatedDuration = Fin 2,
                  tp_requiredCapabilities = [], tp_successCriteria = [],
                  createdAt = 0, version = 1\<rparr>,
      executionOrder = [''X'', ''Y''],
      parallelGroups = [],
      resourceAllocation = Map.empty,
      checkpoints = [],
      fallbackStrategies = [],
      estimatedCost = Fin 1,
      estimatedDuration = Fin 2\<rparr>"

definition example_feedback :: "feedback_status \<Rightarrow> ExecutionFeedback" where
  "example_feedback s =
     \<lparr>fb_taskId = ''X'', fb_status = s, actualDuration = Fin 1, actualCost = Fin 0,
      quality = Fin 1, issues = [], suggestions = []\<rparr>"

text \<open>Payloads for the validator, and a parser that returns a given value.\<close>

definition example_subGoal :: "json list \<Rightarrow> json" where
  "example_subGoal tasks =
     JObj [(''id'', JStr ''sg1''), (''description'', JStr ''first''), (''tasks'', JArr tasks)]"

definition example_json_task :: json where
  "example_json_task = JObj [(''id'', JStr ''t1''), (''name'', JStr ''one''), (''type'', JStr ''atomic'')]"

definition payload_empty_subGoals :: json where
  "payload_empty_subGoals = JObj [(''subGoals'', JArr []), (''estimatedDuration'', JNum (Fin 5))]"

definition payload_negative_duration :: json where
  "payload_negative_duration =
     JObj [(''subGoals'', JArr [example_subGoal [example_json_task]]),
           (''estimatedDuration'', JNum (Fin (- 5)))]"

definition payload_empty_tasks :: json where
  "payload_empty_tasks =
     JObj [(''subGoals'', JArr [example_subGoal []]), (''estimatedDuration'', JNum (Fin 5))]"

definition parse_as :: "json \<Rightarrow> string \<Rightarrow> json option" where
  "parse_as v content = Some v"

section \<open>The traversal is correct\<close>

lemma dep_edges_iff: "(t, d) \<in> dep_edges g \<longleftrightarrow> d \<in> set (graph_deps g t)"
proof (cases "t \<in> set (Map_keys g)")
  case True
  then show ?thesis by (auto simp: dep_edges_def dep_edge_list_def)
next
  case False
  then show ?thesis by (auto simp: dep_edges_def dep_edge_list_def graph_deps_no_key)
qed

lemma appears_before_append:
  "t \<in> set xs \<Longrightarrow> appears_before d t xs \<Longrightarrow> appears_before d t (xs @ ys)"
  by (simp add: appears_before_def takeWhile_append1[where x = t])

lemma appears_before_snoc:
  "t \<notin> set xs \<Longrightarrow> d \<in> set xs \<Longrightarrow> appears_before d t (xs @ [t])"
proof -
  assume a: "t \<notin> set xs" and b: "d \<in> set xs"
  from a have "takeWhile (\<lambda>x. x \<noteq> t) (xs @ [t]) = xs @ takeWhile (\<lambda>x. x \<noteq> t) [t]"
    by (intro takeWhile_append2) auto
  with b show ?thesis by (simp add: appears_before_def)
qed

lemma visit_partial:
  "visit g st t = Inr st' \<Longrightarrow> visit_inv g st \<Longrightarrow>
     visit_inv g st' \<and> visiting st' = visiting st \<and> t \<in> visited st' \<and>
     (\<exists>ys. order st' = order st @ ys \<and> set ys \<subseteq> insert t (Range (dep_edges g)))"
  "visit_deps g st ds = Inr st'' \<Longrightarrow> visit_inv g st \<Longrightarrow>
     visit_inv g st'' \<and> visiting st'' = visiting st \<and> set ds \<subseteq> visited st'' \<and>
     (\<exists>ys. order st'' = order st @ ys \<and> set ys \<subseteq> set ds \<union> Range (dep_edges g))"
proof (induction g st t and g st ds arbitrary: st' and st'' rule: visit_visit_deps.induct)
  case (1 g st taskId)
  from 1(2) have nv: "taskId \<notin> visiting st" by (auto simp: visit.simps split: if_splits)
  show ?case
  proof (cases "taskId \<in> visited st")
    case True
    with nv 1(2) have "st' = st" by (simp add: visit.simps)
    with True 1(3) show ?thesis by simp
  next
    case False
    let ?st1 = "st\<lparr>visiting := insert taskId (visiting st)\<rparr>"
    from 1(2) nv False obtain st2 where
      r: "visit_deps g ?st1 (graph_deps g taskId) = Inr st2"
      and s: "st' = st2\<lparr>visiting := visiting st2 - {taskId},
               visited := insert taskId (visited st2), order := order st2 @ [taskId]\<rparr>"
      by (auto simp: visit.simps split: sum.splits)
    from 1(3) False have inv1: "visit_inv g ?st1" by (auto simp: visit_inv_def)
    from 1(1)[OF nv False r inv1] obtain ys where
      inv2: "visit_inv g st2" and v2: "visiting st2 = insert taskId (visiting st)"
      and d2: "set (graph_deps g taskId) \<subseteq> visited st2"
      and o2: "order st2 = order st @ ys"
      and y2: "set ys \<subseteq> set (graph_deps g taskId) \<union> Range (dep_edges g)"
      by auto
    from inv2 v2 have tn: "taskId \<notin> set (order st2)" by (auto simp: visit_inv_def)
    have cl: "appears_before d u (order st2 @ [taskId])"
      if "u \<in> insert taskId (visited st2)" "d \<in> set (graph_deps g u)" for u d
    proof (cases "u = taskId")
      case True
      with that d2 inv2 have "d \<in> set (order st2)" by (auto simp: visit_inv_def)
      with tn True show ?thesis by (simp add: appears_before_snoc)
    next
      case False
      with that inv2 have "u \<in> set (order st2)" "appears_before d u (order st2)"
        by (auto simp: visit_inv_def)
      then show ?thesis by (rule appears_before_append)
    qed
    have "visit_inv g st'"
      unfolding visit_inv_def
    proof (intro conjI ballI)
      show "visited st' = set (order st')" using s inv2 by (auto simp: visit_inv_def)
      show "distinct (order st')" using s inv2 tn by (auto simp: visit_inv_def)
      show "visited st' \<inter> visiting st' = {}" using s inv2 by (auto simp: visit_inv_def)
    next
      fix u d assume "u \<in> visited st'" "d \<in> set (graph_deps g u)"
      then show "appears_before d u (order st')" using s cl by simp
    qed
    moreover have "visiting st' = visiting st" using s v2 nv by simp
    moreover have "taskId \<in> visited st'" using s by simp
    moreover have "order st' = order st @ (ys @ [taskId])" using s o2 by simp
    moreover have "set (ys @ [taskId]) \<subseteq> insert taskId (Range (dep_edges g))"
      using y2 by (auto simp: dep_edges_iff Range_iff)
    ultimately show ?thesis by blast
  qed
next
  case (2 g st)
  then show ?case by simp
next
  case (3 g st dep deps)
  from 3(3) obtain st1 where a: "visit g st dep = Inr st1"
    and b: "visit_deps g st1 deps = Inr st''"
    by (auto split: sum.splits)
  from 3(1)[OF a 3(4)] obtain ys where
    inv1: "visit_inv g st1" and v1: "visiting st1 = visiting st" and d1: "dep \<in> visited st1"
    and o1: "order st1 = order st @ ys" and y1: "set ys \<subseteq> insert dep (Range (dep_edges g))"
    by auto
  from 3(2)[OF a b inv1] obtain zs where
    inv2: "visit_inv g st''" and v2: "visiting st'' = visiting st1"
    and d2: "set deps \<subseteq> visited st''"
    and o2: "order st'' = order st1 @ zs" and y2: "set zs \<subseteq> set deps \<union> Range (dep_edges g)"
    by auto
  have "dep \<in> visited st''" using d1 inv1 inv2 o2 by (auto simp: visit_inv_def)
  moreover have "order st'' = order st @ (ys @ zs)" using o1 o2 by simp
  moreover have "set (ys @ zs) \<subseteq> set (dep # deps) \<union> Range (dep_edges g)"
    using y1 y2 by auto
  ultimately show ?case using inv2 v1 v2 d2 by (simp del: append_assoc)
qed

lemma visit_error:
  "visit g st t = Inl e \<Longrightarrow> visit_inv g st \<Longrightarrow> \<forall>s\<in>visiting st. (s, t) \<in> (dep_edges g)\<^sup>+ \<Longrightarrow>
     \<exists>x. e = CircularDependency x \<and> (x, x) \<in> (dep_edges g)\<^sup>+"
  "visit_deps g st ds = Inl e \<Longrightarrow> visit_inv g st \<Longrightarrow>
     \<forall>s\<in>visiting st. \<forall>d\<in>set ds. (s, d) \<in> (dep_edges g)\<^sup>+ \<Longrightarrow>
     \<exists>x. e = CircularDependency x \<and> (x, x) \<in> (dep_edges g)\<^sup>+"
proof (induction g st t and g st ds rule: visit_visit_deps.induct)
  case (1 g st taskId)
  show ?case
  proof (cases "taskId \<in> visiting st")
    case True
    with 1(2) have "e = CircularDependency taskId" by (simp add: visit.simps)
    with True 1(4) show ?thesis by blast
  next
    case nv: False
    with 1(2) have nd: "taskId \<notin> visited st" by (auto simp: visit.simps split: if_splits)
    let ?st1 = "st\<lparr>visiting := insert taskId (visiting st)\<rparr>"
    from 1(2) nv nd have r: "visit_deps g ?st1 (graph_deps g taskId) = Inl e"
      by (auto simp: visit.simps split: sum.splits)
    from 1(3) nd have inv1: "visit_inv g ?st1" by (auto simp: visit_inv_def)
    have "(s, d) \<in> (dep_edges g)\<^sup>+"
      if "s \<in> visiting ?st1" "d \<in> set (graph_deps g taskId)" for s d
    proof -
      from that(2) have ed: "(taskId, d) \<in> dep_edges g" by (simp add: dep_edges_iff)
      show ?thesis
      proof (cases "s = taskId")
        case True
        with ed show ?thesis by blast
      next
        case False
        with that(1) 1(4) have "(s, taskId) \<in> (dep_edges g)\<^sup>+" by simp
        from this ed show ?thesis by (rule trancl.trancl_into_trancl)
      qed
    qed
    then have "\<forall>s\<in>visiting ?st1. \<forall>d\<in>set (graph_deps g taskId). (s, d) \<in> (dep_edges g)\<^sup>+"
      by blast
    from 1(1)[OF nv nd r inv1 this] show ?thesis .
  qed
next
  case (2 g st)
  then show ?case by simp
next
  case (3 g st dep deps)
  show ?case
  proof (cases "visit g st dep")
    case (Inl e')
    with 3(3) have "e' = e" by simp
    with Inl 3(1) 3(4,5) show ?thesis by simp
  next
    case (Inr st1)
    with 3(3) have b: "visit_deps g st1 deps = Inl e" by simp
    from visit_partial(1)[OF Inr 3(4)] have inv1: "visit_inv g st1"
      and v1: "visiting st1 = visiting st" by auto
    from 3(5) v1 have "\<forall>s\<in>visiting st1. \<forall>d\<in>set deps. (s, d) \<in> (dep_edges g)\<^sup>+" by simp
    from 3(2)[OF Inr b inv1 this] show ?thesis .
  qed
qed

lemma visit_keys_partial:
  "visit_keys g st ks = Inr st' \<Longrightarrow> visit_inv g st \<Longrightarrow> visiting st = {} \<Longrightarrow>
     visit_inv g st' \<and> visiting st' = {} \<and> set ks \<subseteq> visited st' \<and>
     (\<exists>ys. order st' = order st @ ys \<and> set ys \<subseteq> set ks \<union> Range (dep_edges g))"
proof (induction ks arbitrary: st)
  case Nil
  then show ?case by simp
next
  case (Cons k ks)
  show ?case
  proof (cases "k \<in> visited st")
    case True
    with Cons.prems(1) have r: "visit_keys g st ks = Inr st'" by simp
    from Cons.IH[OF r Cons.prems(2,3)] obtain ys where
      h: "visit_inv g st'" "visiting st' = {}" "set ks \<subseteq> visited st'"
        "order st' = order st @ ys" "set ys \<subseteq> set ks \<union> Range (dep_edges g)" by auto
    from True Cons.prems(2) h(1,4) have "k \<in> visited st'" by (auto simp: visit_inv_def)
    with h show ?thesis by auto
  next
    case False
    with Cons.prems(1) obtain st1 where a: "visit g st k = Inr st1"
      and b: "visit_keys g st1 ks = Inr st'" by (auto split: sum.splits)
    from visit_partial(1)[OF a Cons.prems(2)] Cons.prems(3) obtain ys where
      h1: "visit_inv g st1" "visiting st1 = {}" "k \<in> visited st1"
        "order st1 = order st @ ys" "set ys \<subseteq> insert k (Range (dep_edges g))" by auto
    from Cons.IH[OF b h1(1,2)] obtain zs where
      h2: "visit_inv g st'" "visiting st' = {}" "set ks \<subseteq> visited st'"
        "order st' = order st1 @ zs" "set zs \<subseteq> set ks \<union> Range (dep_edges g)" by auto
    have "k \<in> visited st'" using h1(1,3) h2(1,4) by (auto simp: visit_inv_def)
    moreover have "order st' = order st @ (ys @ zs)" using h1(4) h2(4) by simp
    moreover have "set (ys @ zs) \<subseteq> set (k # ks) \<union> Range (dep_edges g)"
      using h1(5) h2(5) by auto
    ultimately show ?thesis using h2(1,2,3) by (simp del: append_assoc)
  qed
qed

lemma visit_keys_error:
  "visit_keys g st ks = Inl e \<Longrightarrow> visit_inv g st \<Longrightarrow> visiting st = {} \<Longrightarrow>
     \<exists>x. e = CircularDependency x \<and> (x, x) \<in> (dep_edges g)\<^sup>+"
proof (induction ks arbitrary: st)
  case Nil
  then show ?case by simp
next
  case (Cons k ks)
  show ?case
  proof (cases "k \<in> visited st")
    case True
    with Cons.prems(1) have "visit_keys g st ks = Inl e" by simp
    from Cons.IH[OF this Cons.prems(2,3)] show ?thesis .
  next
    case False
    show ?thesis
    proof (cases "visit g st k")
      case (Inl e')
      with False Cons.prems(1) have "e' = e" by simp
      with Inl visit_error(1)[of g st k e] Cons.prems(2,3) show ?thesis by simp
    next
      case (Inr st1)
      with False Cons.prems(1) have b: "visit_keys g st1 ks = Inl e" by simp
      from visit_partial(1)[OF Inr Cons.prems(2)] Cons.prems(3)
      have "visit_inv g st1" "visiting st1 = {}" by auto
      from Cons.IH[OF b this] show ?thesis .
    qed
  qed
qed

lemma visit_inv_initial: "visit_inv g \<lparr>order = [], visited = {}, visiting = {}\<rparr>"
  by (simp add: visit_inv_def)

lemma dep_edges_key: "(t, d) \<in> dep_edges g \<Longrightarrow> t \<in> set (Map_keys g)"
  by (auto simp: dep_edges_def dep_edge_list_def)

lemma appears_before_in: "appears_before d t xs \<Longrightarrow> d \<in> set xs"
  by (auto simp: appears_before_def dest: set_takeWhileD)

lemma calculateExecutionOrder_sound:
  assumes "calculateExecutionOrder g c = Inr ord"
  shows "distinct ord" and "set ord = set (Map_keys g) \<union> Range (dep_edges g)"
    and "\<And>t d. (t, d) \<in> dep_edges g \<Longrightarrow> appears_before d t ord"
proof -
  let ?st0 = "\<lparr>order = [], visited = {}, visiting = {}\<rparr>"
  from assms obtain st where r: "visit_keys g ?st0 (Map_keys g) = Inr st" and o: "ord = order st"
    by (auto simp: calculateExecutionOrder_def split: sum.splits)
  from visit_keys_partial[OF r visit_inv_initial] obtain ys where
    h: "visit_inv g st" "set (Map_keys g) \<subseteq> visited st" "order st = ys"
      "set ys \<subseteq> set (Map_keys g) \<union> Range (dep_edges g)" by auto
  from h(1) o show "distinct ord" by (simp add: visit_inv_def)
  show ab: "appears_before d t ord" if "(t, d) \<in> dep_edges g" for t d
  proof -
    from that h(2) have "t \<in> visited st" by (auto dest: dep_edges_key)
    with that h(1) o show ?thesis by (auto simp: visit_inv_def dep_edges_iff)
  qed
  have "Range (dep_edges g) \<subseteq> set ord"
  proof
    fix d assume "d \<in> Range (dep_edges g)"
    then obtain t where "(t, d) \<in> dep_edges g" by blast
    then show "d \<in> set ord" by (intro appears_before_in[OF ab])
  qed
  with h o show "set ord = set (Map_keys g) \<union> Range (dep_edges g)"
    by (auto simp: visit_inv_def)
qed

lemma calculateExecutionOrder_error:
  assumes "calculateExecutionOrder g c = Inl e"
  shows "\<exists>x. e = CircularDependency x \<and> (x, x) \<in> (dep_edges g)\<^sup>+"
proof -
  let ?st0 = "\<lparr>order = [], visited = {}, visiting = {}\<rparr>"
  from assms have "visit_keys g ?st0 (Map_keys g) = Inl e"
    by (auto simp: calculateExecutionOrder_def split: sum.splits)
  from visit_keys_error[OF this visit_inv_initial] show ?thesis by simp
qed

lemma appears_before_index:
  "appears_before d t xs \<Longrightarrow>
     length (takeWhile (\<lambda>x. x \<noteq> d) xs) < length (takeWhile (\<lambda>x. x \<noteq> t) xs)"
  unfolding appears_before_def
  by (induction xs) (auto split: if_splits)

lemma calculateExecutionOrder_success_acyclic:
  assumes "calculateExecutionOrder g c = Inr ord"
  shows "acyclic (dep_edges g)"
proof -
  let ?idx = "\<lambda>t. length (takeWhile (\<lambda>x. x \<noteq> t) ord)"
  have "dep_edges g \<subseteq> (measure ?idx)\<inverse>"
    using calculateExecutionOrder_sound(3)[OF assms] appears_before_index by auto
  moreover have "acyclic ((measure ?idx)\<inverse>)"
    by (simp add: wf_acyclic)
  ultimately show ?thesis by (rule acyclic_subset[rotated])
qed

section \<open>The graph of a task list\<close>

lemma Map_keys_Map_set: "set (Map_keys (Map_set g k v)) = insert k (set (Map_keys g))"
  by (simp add: Map_keys_def Map_set_def dom_update)

lemma buildDependencyGraph_loop_keys:
  "set (Map_keys (buildDependencyGraph_loop g tasks)) = set (Map_keys g) \<union> task_id ` set tasks"
  by (induction tasks arbitrary: g) (auto simp: Map_keys_Map_set)

lemma buildDependencyGraph_keys:
  "set (Map_keys (buildDependencyGraph tasks)) = task_id ` set tasks"
  using buildDependencyGraph_loop_keys[of "[]" tasks]
  by (simp add: buildDependencyGraph_def Map_keys_def)

lemma Map_get_Map_set: "Map_get (Map_set g k v) k' = (if k' = k then Some v else Map_get g k')"
  by (simp add: Map_get_def Map_set_def update_conv')

lemma buildDependencyGraph_loop_get:
  "Map_get (buildDependencyGraph_loop g tasks) k = Some ds \<Longrightarrow>
     Map_get g k = Some ds \<or> (\<exists>t\<in>set tasks. task_id t = k \<and> task_dependencies t = ds)"
proof (induction tasks arbitrary: g)
  case Nil
  then show ?case by simp
next
  case (Cons a tasks)
  let ?g = "Map_set g (task_id a) (task_dependencies a)"
  from Cons.prems have "Map_get (buildDependencyGraph_loop ?g tasks) k = Some ds" by simp
  from Cons.IH[OF this] show ?case
  proof
    assume h: "Map_get ?g k = Some ds"
    show ?thesis
    proof (cases "k = task_id a")
      case True
      with h show ?thesis by (simp add: Map_get_Map_set)
    next
      case False
      with h show ?thesis by (simp add: Map_get_Map_set)
    qed
  next
    assume "\<exists>t\<in>set tasks. task_id t = k \<and> task_dependencies t = ds"
    then show ?thesis by auto
  qed
qed

lemma buildDependencyGraph_edges:
  assumes "(k, d) \<in> dep_edges (buildDependencyGraph tasks)"
  shows "\<exists>t\<in>set tasks. task_id t = k \<and> d \<in> set (task_dependencies t)"
proof -
  from assms have d: "d \<in> set (graph_deps (buildDependencyGraph tasks) k)"
    by (simp add: dep_edges_iff)
  show ?thesis
  proof (cases "Map_get (buildDependencyGraph tasks) k")
    case None
    with d show ?thesis by (simp add: graph_deps_def)
  next
    case (Some ds)
    with d have "d \<in> set ds" by (simp add: graph_deps_def)
    moreover from Some buildDependencyGraph_loop_get[of "[]" tasks k ds]
    have "\<exists>t\<in>set tasks. task_id t = k \<and> task_dependencies t = ds"
      by (simp add: buildDependencyGraph_def Map_get_def)
    ultimately show ?thesis by auto
  qed
qed

lemma buildDependencyGraph_loop_get_distinct:
  "distinct (map task_id tasks) \<Longrightarrow> t \<in> set tasks \<Longrightarrow>
     Map_get (buildDependencyGraph_loop g tasks) (task_id t) = Some (task_dependencies t)"
proof (induction tasks arbitrary: g)
  case Nil
  then show ?case by simp
next
  case (Cons a tasks)
  show ?case
  proof (cases "t \<in> set tasks")
    case True
    with Cons show ?thesis by simp
  next
    case False
    with Cons.prems have ta: "t = a" and "task_id a \<notin> task_id ` set tasks" by auto
    have "Map_get (buildDependencyGraph_loop g' tasks) (task_id a) = Map_get g' (task_id a)" for g'
      using \<open>task_id a \<notin> task_id ` set tasks\<close>
      by (induction tasks arbitrary: g') (auto simp: Map_get_Map_set)
    with ta show ?thesis by (simp add: Map_get_Map_set)
  qed
qed

lemma buildDependencyGraph_deps_distinct:
  "distinct (map task_id tasks) \<Longrightarrow> t \<in> set tasks \<Longrightarrow>
     graph_deps (buildDependencyGraph tasks) (task_id t) = task_dependencies t"
  by (simp add: graph_deps_def buildDependencyGraph_def buildDependencyGraph_loop_get_distinct)

lemma buildDependencyGraph_loop_distinct:
  "distinct (Map_keys g) \<Longrightarrow> distinct (Map_keys (buildDependencyGraph_loop g tasks))"
  by (induction tasks arbitrary: g) (auto simp: Map_keys_def Map_set_def distinct_update)

lemma buildDependencyGraph_loop_length:
  "distinct (map task_id tasks) \<Longrightarrow> set (Map_keys g) \<inter> task_id ` set tasks = {} \<Longrightarrow>
   Map_keys (buildDependencyGraph_loop g tasks) = Map_keys g @ map task_id tasks"
proof (induction tasks arbitrary: g)
  case Nil
  then show ?case by simp
next
  case (Cons a tasks)
  from Cons.prems have "task_id a \<notin> fst ` set g" by (auto simp: Map_keys_def)
  then have k: "Map_keys (Map_set g (task_id a) (task_dependencies a)) = Map_keys g @ [task_id a]"
    by (induction g) (auto simp: Map_keys_def Map_set_def)
  with Cons.prems have "set (Map_keys (Map_set g (task_id a) (task_dependencies a))) \<inter> task_id ` set tasks = {}"
    by auto
  with Cons.IH[of "Map_set g (task_id a) (task_dependencies a)"] Cons.prems k show ?case by simp
qed

section \<open>Scheduling\<close>

text \<open>
  Claim C1. When the dependency graph of a task list is acyclic and every declared dependency
  is the id of a task of the list, the scheduler returns an order that holds every task id
  exactly once and in which every dependency of a key of the graph comes before that key. When
  the task ids are unique, the order is a permutation of the list of task ids, and re-checking
  it against the dependencies that the tasks declare finds no violation.
\<close>

theorem calculateExecutionOrder_topological:
  assumes ac: "acyclic (dep_edges (buildDependencyGraph tasks))"
    and cl: "\<forall>t\<in>set tasks. set (task_dependencies t) \<subseteq> task_id ` set tasks"
  shows "\<exists>ord. calculateExecutionOrder (buildDependencyGraph tasks) c = Inr ord \<and>
           distinct ord \<and> set ord = task_id ` set tasks \<and>
           (\<forall>(t, d)\<in>dep_edges (buildDependencyGraph tasks). appears_before d t ord) \<and>
           (distinct (map task_id tasks) \<longrightarrow>
              mset ord = mset (map task_id tasks) \<and> dependency_violations tasks ord = [])"
proof -
  let ?g = "buildDependencyGraph tasks"
  have "\<exists>ord. calculateExecutionOrder ?g c = Inr ord"
  proof (cases "calculateExecutionOrder ?g c")
    case (Inl e)
    from calculateExecutionOrder_error[OF Inl] ac show ?thesis by (auto simp: acyclic_def)
  next
    case (Inr ord)
    then show ?thesis by blast
  qed
  then obtain ord where r: "calculateExecutionOrder ?g c = Inr ord" ..
  note s = calculateExecutionOrder_sound[OF r]
  have "Range (dep_edges ?g) \<subseteq> task_id ` set tasks"
    using cl by (auto dest!: buildDependencyGraph_edges)
  with s(2) have so: "set ord = task_id ` set tasks"
    by (auto simp: buildDependencyGraph_keys)
  have ab: "\<forall>(t, d)\<in>dep_edges ?g. appears_before d t ord" using s(3) by auto
  have "mset ord = mset (map task_id tasks) \<and> dependency_violations tasks ord = []"
    if di: "distinct (map task_id tasks)"
  proof
    from di s(1) so show "mset ord = mset (map task_id tasks)"
      by (metis distinct_map mset_set_set set_map)
    have "t \<in> set ord \<and> appears_before d t ord"
      if "task \<in> set tasks" "t = task_id task" "d \<in> set (task_dependencies task)" for task t d
    proof -
      from that di have "(t, d) \<in> dep_edges ?g"
        by (simp add: dep_edges_iff buildDependencyGraph_deps_distinct)
      with s(3) that so show ?thesis by auto
    qed
    then show "dependency_violations tasks ord = []"
      by (auto simp: dependency_violations_def filter_empty_conv)
  qed
  with r s(1) so ab show ?thesis by blast
qed

theorem calculateExecutionOrder_topological_witness:
  "acyclic (dep_edges (buildDependencyGraph tasks_ABC)) \<and>
   list_all (\<lambda>t. set (task_dependencies t) \<subseteq> task_id ` set tasks_ABC) tasks_ABC \<and>
   distinct (map task_id tasks_ABC) \<and>
   (\<exists>ord. calculateExecutionOrder (buildDependencyGraph tasks_ABC) no_constraints = Inr ord \<and>
      distinct ord \<and> set ord = task_id ` set tasks_ABC \<and>
      appears_before ''A'' ''B'' ord \<and>
      mset ord = mset (map task_id tasks_ABC) \<and> dependency_violations tasks_ABC ord = [])"
proof -
  have h1: "acyclic (dep_edges (buildDependencyGraph tasks_ABC))" by code_simp
  have h2: "\<forall>t\<in>set tasks_ABC. set (task_dependencies t) \<subseteq> task_id ` set tasks_ABC"
    by code_simp
  have h3: "distinct (map task_id tasks_ABC)" by code_simp
  have h4: "(''B'', ''A'') \<in> dep_edges (buildDependencyGraph tasks_ABC)" by code_simp
  from calculateExecutionOrder_topological[OF h1 h2, of no_constraints] h3 h4
  obtain ord where
    "calculateExecutionOrder (buildDependencyGraph tasks_ABC) no_constraints = Inr ord"
    "distinct ord" "set ord = task_id ` set tasks_ABC" "appears_before ''A'' ''B'' ord"
    "mset ord = mset (map task_id tasks_ABC)" "dependency_violations tasks_ABC ord = []"
    by blast
  with h1 h2 h3 show ?thesis unfolding list_all_iff by blast
qed

text \<open>
  Claim C2. When the dependency graph of a task list has a cycle, the scheduler returns no
  order: it fails with \<open>CircularDependency x\<close> for a task \<open>x\<close> that reaches itself along
  the edges of the graph, that is, a task that lies on a cycle.
\<close>

theorem calculateExecutionOrder_cycle_detected:
  assumes "\<not> acyclic (dep_edges (buildDependencyGraph tasks))"
  shows "\<exists>x. calculateExecutionOrder (buildDependencyGraph tasks) c = Inl (CircularDependency x) \<and>
           (x, x) \<in> (dep_edges (buildDependencyGraph tasks))\<^sup>+"
proof (cases "calculateExecutionOrder (buildDependencyGraph tasks) c")
  case (Inl e)
  from calculateExecutionOrder_error[OF Inl] Inl show ?thesis by auto
next
  case (Inr ord)
  from calculateExecutionOrder_success_acyclic[OF Inr] assms show ?thesis by simp
qed

theorem calculateExecutionOrder_cycle_detected_witness:
  "\<not> acyclic (dep_edges (buildDependencyGraph tasks_cycle)) \<and>
   (\<exists>x. calculateExecutionOrder (buildDependencyGraph tasks_cycle) no_constraints =
           Inl (CircularDependency x) \<and>
         (x, x) \<in> (dep_edges (buildDependencyGraph tasks_cycle))\<^sup>+)"
proof -
  have h: "\<not> acyclic (dep_edges (buildDependencyGraph tasks_cycle))" by code_simp
  from calculateExecutionOrder_cycle_detected[OF h, of no_constraints] h show ?thesis by blast
qed

section \<open>Parallel groups compare with the first member only\<close>

lemma group_scan_members:
  "group_scan g f (grp, processed) ts = (grp', processed') \<Longrightarrow>
     \<exists>new. grp' = grp @ new \<and> (\<forall>x\<in>set new. canRunInParallel f x g)"
proof (induction ts arbitrary: grp processed)
  case Nil
  then show ?case by simp
next
  case (Cons t ts)
  show ?case
  proof (cases "task_id t \<notin> processed \<and> canRunInParallel f (task_id t) g")
    case True
    with Cons.prems have
      "group_scan g f (grp @ [task_id t], insert (task_id t) processed) ts = (grp', processed')"
      by simp
    from Cons.IH[OF this] obtain new where
      "grp' = (grp @ [task_id t]) @ new" "\<forall>x\<in>set new. canRunInParallel f x g" by blast
    with True have "grp' = grp @ (task_id t # new) \<and>
        (\<forall>x\<in>set (task_id t # new). canRunInParallel f x g)" by simp
    then show ?thesis by blast
  next
    case False
    with Cons.prems have "group_scan g f (grp, processed) ts = (grp', processed')"
      by (auto split: if_splits)
    from Cons.IH[OF this] show ?thesis .
  qed
qed

lemma identifyParallelGroups_loop_starter:
  "identifyParallelGroups_loop tasks g (groups, processed) ts = (groups', processed') \<Longrightarrow>
     list_all (starter_independent g) groups \<Longrightarrow> list_all (starter_independent g) groups'"
proof (induction ts arbitrary: groups processed)
  case Nil
  then show ?case by simp
next
  case (Cons t ts)
  show ?case
  proof (cases "task_id t \<in> processed")
    case True
    with Cons.prems(1) have
      "identifyParallelGroups_loop tasks g (groups, processed) ts = (groups', processed')" by simp
    from Cons.IH[OF this Cons.prems(2)] show ?thesis .
  next
    case False
    obtain grp p1 where
      s: "group_scan g (task_id t) ([task_id t], insert (task_id t) processed) tasks = (grp, p1)"
      by (cases "group_scan g (task_id t) ([task_id t], insert (task_id t) processed) tasks")
    from group_scan_members[OF s] have si: "starter_independent g grp"
      by (auto simp: starter_independent_def list_all_iff)
    from False s Cons.prems(1) have r:
      "identifyParallelGroups_loop tasks g
         (if length grp > 1 then groups @ [grp] else groups, p1) ts = (groups', processed')"
      by simp
    from si Cons.prems(2) have
      "list_all (starter_independent g) (if length grp > 1 then groups @ [grp] else groups)"
      by simp
    from Cons.IH[OF r this] show ?thesis .
  qed
qed

lemma identifyParallelGroups_starter_independent:
  "list_all (starter_independent g) (identifyParallelGroups tasks g)"
proof -
  obtain gs p where r: "identifyParallelGroups_loop tasks g ([], {}) tasks = (gs, p)"
    by (cases "identifyParallelGroups_loop tasks g ([], {}) tasks")
  from identifyParallelGroups_loop_starter[OF r] r show ?thesis
    by (simp add: identifyParallelGroups_def)
qed

text \<open>
  Claim C3. The claim asks that no two members of a group have a dependency edge between
  them. The grouping compares a candidate with the first member of the group only: for the
  tasks \<open>A\<close>, \<open>B\<close> and \<open>C\<close>, where \<open>C\<close> depends on \<open>B\<close>, it returns the single group
  \<open>[A, B, C]\<close>, which holds both \<open>B\<close> and its dependent \<open>C\<close>.
\<close>

theorem identifyParallelGroups_groups_dependent_members:
  "identifyParallelGroups tasks_chain_after_free (buildDependencyGraph tasks_chain_after_free)
     = [[''A'', ''B'', ''C'']] \<and>
   ''B'' \<in> set (graph_deps (buildDependencyGraph tasks_chain_after_free) ''C'')"
  by code_simp

section \<open>Unknown task references\<close>

text \<open>
  Claim C4, amended. A dependency on an id that is no task of the list makes nothing fail:
  \<open>buildDependencyGraph\<close> keeps the id in the dependency set, and the scheduler visits it as a
  task without dependencies. When the graph is acyclic, \<open>createExecutionPlan\<close> returns a plan
  whose execution order holds no id twice and holds both the unknown id and the task that
  refers to it, the unknown id first.
\<close>

theorem createExecutionPlan_keeps_unknown_reference:
  assumes e: "(t, d) \<in> dep_edges (buildDependencyGraph tasks)"
    and dang: "d \<notin> task_id ` set tasks"
    and ac: "acyclic (dep_edges (buildDependencyGraph tasks))"
  shows "\<exists>plan. createExecutionPlan tasks constraints uuidv4 now = Inr plan \<and>
           distinct (executionOrder plan) \<and>
           d \<in> set (executionOrder plan) \<and> t \<in> set (executionOrder plan) \<and>
           appears_before d t (executionOrder plan)"
proof -
  let ?g = "buildDependencyGraph tasks"
  obtain ord where r: "calculateExecutionOrder ?g constraints = Inr ord"
  proof (cases "calculateExecutionOrder ?g constraints")
    case (Inl e)
    from calculateExecutionOrder_error[OF Inl] ac show ?thesis by (auto simp: acyclic_def)
  next
    case (Inr ord)
    then show ?thesis by (rule that)
  qed
  from calculateExecutionOrder_sound(3)[OF r e] have ab: "appears_before d t ord" .
  then have din: "d \<in> set ord" by (rule appears_before_in)
  from e have "t \<in> set (Map_keys ?g)" by (rule dep_edges_key)
  with calculateExecutionOrder_sound(2)[OF r] have tin: "t \<in> set ord" by simp
  from calculateExecutionOrder_sound(1)[OF r] have "distinct ord" .
  with ab din tin r show ?thesis by (simp add: createExecutionPlan_def Let_def)
qed

theorem createExecutionPlan_keeps_unknown_reference_witness:
  "(''A'', ''X'') \<in> dep_edges (buildDependencyGraph tasks_dangling) \<and>
   ''X'' \<notin> task_id ` set tasks_dangling \<and>
   acyclic (dep_edges (buildDependencyGraph tasks_dangling)) \<and>
   (\<exists>plan. createExecutionPlan tasks_dangling no_constraints example_uuidv4 0 = Inr plan \<and>
           distinct (executionOrder plan) \<and>
           ''X'' \<in> set (executionOrder plan) \<and> ''A'' \<in> set (executionOrder plan) \<and>
           appears_before ''X'' ''A'' (executionOrder plan))"
proof -
  have a: "(''A'', ''X'') \<in> dep_edges (buildDependencyGraph tasks_dangling)" by code_simp
  have b: "''X'' \<notin> task_id ` set tasks_dangling" by code_simp
  have c: "acyclic (dep_edges (buildDependencyGraph tasks_dangling))" by code_simp
  from createExecutionPlan_keeps_unknown_reference[OF a b c, of no_constraints example_uuidv4 0] a b c show ?thesis by blast
qed

text \<open>
  The claim as stated fails for the one task \<open>A\<close> that depends on \<open>X\<close>: a plan is returned,
  and its execution order is \<open>[X, A]\<close>.
\<close>

theorem createExecutionPlan_unknown_reference_counterexample:
  "map_sum id executionOrder (createExecutionPlan tasks_dangling no_constraints example_uuidv4 0)
     = Inr [''X'', ''A'']"
  by code_simp

section \<open>Estimates of the three-task example\<close>

text \<open>
  Claim C5. For \<open>A\<close> (10 minutes, no dependency), \<open>B\<close> (20 minutes, after \<open>A\<close>) and \<open>C\<close>
  (5 minutes, no dependency), whatever their other fields, \<open>createExecutionPlan\<close> puts \<open>A\<close>
  before \<open>B\<close>, groups \<open>A\<close> with \<open>C\<close>, estimates the duration as \<open>max(10, 5) + 20 = 30\<close>, not
  35, and the cost as three times 0.05.
\<close>

theorem createExecutionPlan_three_task_example:
  "\<exists>plan. createExecutionPlan
            [ta\<lparr>task_id := ''A'', task_estimatedDuration := Fin 10, task_dependencies := []\<rparr>,
             tb\<lparr>task_id := ''B'', task_estimatedDuration := Fin 20, task_dependencies := [''A'']\<rparr>,
             tc\<lparr>task_id := ''C'', task_estimatedDuration := Fin 5, task_dependencies := []\<rparr>]
            constraints uuidv4 now = Inr plan \<and>
     executionOrder plan = [''A'', ''B'', ''C''] \<and>
     appears_before ''A'' ''B'' (executionOrder plan) \<and>
     parallelGroups plan = [[''A'', ''C'']] \<and>
     estimatedDuration plan = js_add (js_max (Fin 10) (Fin 5)) (Fin 20) \<and>
     estimatedDuration plan = Fin 30 \<and>
     estimatedDuration plan \<noteq> Fin 35 \<and>
     estimatedCost plan = js_mul (Fin 3) (Fin (5 / 100))"
proof -
  let ?tasks = "[ta\<lparr>task_id := ''A'', task_estimatedDuration := Fin 10, task_dependencies := []\<rparr>,
             tb\<lparr>task_id := ''B'', task_estimatedDuration := Fin 20, task_dependencies := [''A'']\<rparr>,
             tc\<lparr>task_id := ''C'', task_estimatedDuration := Fin 5, task_dependencies := []\<rparr>]"
  have g: "buildDependencyGraph ?tasks = [(''A'', []), (''B'', [''A'']), (''C'', [])]"
    by (simp add: buildDependencyGraph_def Map_set_def)
  have o: "calculateExecutionOrder [(''A'', []), (''B'', [''A'']), (''C'', [])] constraints
            = Inr [''A'', ''B'', ''C'']"
    by (simp add: calculateExecutionOrder_def Map_keys_def visit.simps graph_deps_def Map_get_def)
  have p: "identifyParallelGroups ?tasks [(''A'', []), (''B'', [''A'']), (''C'', [])] = [[''A'', ''C'']]"
    by (simp add: identifyParallelGroups_def canRunInParallel_def graph_deps_def Map_get_def)
  have e: "calculateEstimates ?tasks [[''A'', ''C'']] = \<lparr>duration = Fin 30, cost = Fin (15 / 100)\<rparr>"
    by (simp add: calculateEstimates_def Math_max_def)
  show ?thesis
    unfolding createExecutionPlan_def Let_def g o p e
    by (simp add: appears_before_def)
qed

section \<open>Adapted plans\<close>




lemma indexOf_bounds: "indexOf xs x < int (length xs)"
  by (induction xs) (auto simp: Let_def)

lemma reorder_length:
  assumes "- 1 < indexOf xs x"
  shows "length (take (nat (indexOf xs x)) xs @ drop (Suc (nat (indexOf xs x))) xs @ [x])
           = length xs"
proof -
  from assms indexOf_bounds[of xs x] have "nat (indexOf xs x) < length xs" by simp
  then show ?thesis by simp
qed

text \<open>
  Claim C7, amended. For feedback with status \<open>failed\<close> or \<open>blocked\<close>, the new estimated
  duration is the old one times \<open>actualDuration / (old estimatedDuration / n)\<close> and the new
  estimated cost is the old cost times the same factor, where \<open>n\<close> is the length of the
  execution order of the adapted plan: the old length for \<open>blocked\<close>, the length of the old
  order without the failed task for \<open>failed\<close>.
\<close>

theorem adaptPlan_estimates_rescaled:
  assumes "fb_status feedback = Failed \<or> fb_status feedback = Blocked"
  shows
    "(let n = length (if fb_status feedback = Failed
                      then filter (\<lambda>i. i \<noteq> fb_taskId feedback) (executionOrder P)
                      else executionOrder P);
          factor = js_div (actualDuration feedback)
                     (js_div (estimatedDuration P) (Fin (real n)))
      in length (executionOrder (adaptPlan P feedback new_id)) = n \<and>
         estimatedDuration (adaptPlan P feedback new_id) = js_mul (estimatedDuration P) factor \<and>
         estimatedCost (adaptPlan P feedback new_id) = js_mul (estimatedCost P) factor)"
proof (cases "fb_status feedback = Failed")
  case True
  then show ?thesis
    by (simp add: adaptPlan_def Let_def analyzeFeedbackImpact_def determineAdaptationStrategy_def
        applyAdaptations_def recalculateEstimates_def)
next
  case False
  with assms have b: "fb_status feedback = Blocked" by simp
  show ?thesis
  proof (cases "- 1 < indexOf (executionOrder P) (fb_taskId feedback)")
    case True
    from reorder_length[OF True] b True show ?thesis
      by (simp add: adaptPlan_def Let_def analyzeFeedbackImpact_def
          determineAdaptationStrategy_def applyAdaptations_def recalculateEstimates_def)
  next
    case False
    with b show ?thesis
      by (simp add: adaptPlan_def Let_def analyzeFeedbackImpact_def
          determineAdaptationStrategy_def applyAdaptations_def recalculateEstimates_def)
  qed
qed

theorem adaptPlan_estimates_rescaled_witness:
  "fb_status (example_feedback Failed) = Failed \<and>
   length (executionOrder (adaptPlan example_plan (example_feedback Failed) ''plan-2'')) = 1 \<and>
   estimatedDuration (adaptPlan example_plan (example_feedback Failed) ''plan-2'') = Fin 1 \<and>
   estimatedCost (adaptPlan example_plan (example_feedback Failed) ''plan-2'') = Fin (1 / 2)"
proof -
  have a: "fb_status (example_feedback Failed) = Failed" by (simp add: example_feedback_def)
  then have "fb_status (example_feedback Failed) = Failed \<or>
             fb_status (example_feedback Failed) = Blocked" ..
  from adaptPlan_estimates_rescaled[OF this, of example_plan "''plan-2''"] a show ?thesis
    by (simp add: example_plan_def example_feedback_def Let_def)
qed

text \<open>
  The claim as stated divides by the length of the old execution order. For the plan of \<open>X\<close>
  and \<open>Y\<close> with estimated duration 2 and the feedback that \<open>X\<close> failed after 1 minute, the
  claimed duration is \<open>2 * (1 / (2 / 2)) = 2\<close>; the adapted plan has \<open>2 * (1 / (2 / 1)) = 1\<close>.
\<close>

theorem adaptPlan_estimates_counterexample:
  "executionOrder example_plan \<noteq> [] \<and> js_lt (Fin 0) (estimatedDuration example_plan) \<and>
   fb_status (example_feedback Failed) = Failed \<and>
   estimatedDuration (adaptPlan example_plan (example_feedback Failed) ''plan-2'') = Fin 1 \<and>
   js_mul (estimatedDuration example_plan)
     (js_div (actualDuration (example_feedback Failed))
        (js_div (estimatedDuration example_plan)
           (Fin (real (length (executionOrder example_plan)))))) = Fin 2"
  by (simp add: adaptPlan_def Let_def analyzeFeedbackImpact_def determineAdaptationStrategy_def
        applyAdaptations_def recalculateEstimates_def example_plan_def example_feedback_def)

section \<open>The validator and well-formed payloads\<close>

lemma validate_task_iff: "validate_task t = Inr () \<longleftrightarrow> well_formed_task t"
  by (cases t) (auto simp: validate_task_def well_formed_task_def get_prop_def)

lemma validate_tasks_iff: "validate_tasks ts = Inr () \<longleftrightarrow> list_all well_formed_task ts"
proof (induction ts)
  case Nil
  show ?case by simp
next
  case (Cons t ts)
  show ?case
  proof (cases "validate_task t")
    case (Inl e)
    with validate_task_iff[of t] show ?thesis by auto
  next
    case (Inr u)
    with validate_task_iff[of t] Cons show ?thesis by simp
  qed
qed

lemma not_well_formed_char: "\<not> well_formed_task (JStr s)"
  by (simp add: well_formed_task_def)

lemma validate_tasks_chars: "s \<noteq> [] \<Longrightarrow> validate_tasks (map (\<lambda>c. JStr [c]) s) \<noteq> Inr ()"
proof -
  assume "s \<noteq> []"
  then obtain a rest where "s = a # rest" by (cases s) auto
  then have "\<not> list_all well_formed_task (map (\<lambda>c. JStr [c]) s)"
    by (simp add: not_well_formed_char)
  then show ?thesis unfolding validate_tasks_iff .
qed

lemma validate_subGoal_iff: "validate_subGoal sg = Inr () \<longleftrightarrow> well_formed_subGoal sg"
proof (cases sg)
  case (JObj kvs)
  show ?thesis
  proof (cases "map_of kvs ''tasks''")
    case None
    with JObj show ?thesis
      by (simp add: validate_subGoal_def well_formed_subGoal_def get_prop_def)
  next
    case (Some ts)
    show ?thesis
    proof (cases ts)
      case (JArr xs)
      with JObj Some show ?thesis
        by (simp add: validate_subGoal_def well_formed_subGoal_def get_prop_def validate_tasks_iff)
    next
      case (JStr s)
      with JObj Some validate_tasks_chars[of s] show ?thesis
        by (auto simp: validate_subGoal_def well_formed_subGoal_def get_prop_def)
    qed (use JObj Some in \<open>simp_all add: validate_subGoal_def well_formed_subGoal_def get_prop_def\<close>)
  qed
qed (simp_all add: validate_subGoal_def well_formed_subGoal_def get_prop_def)

lemma validate_subGoals_iff: "validate_subGoals sgs = Inr () \<longleftrightarrow> list_all well_formed_subGoal sgs"
proof (induction sgs)
  case Nil
  show ?case by simp
next
  case (Cons t ts)
  show ?case
  proof (cases "validate_subGoal t")
    case (Inl e)
    with validate_subGoal_iff[of t] show ?thesis by auto
  next
    case (Inr u)
    with validate_subGoal_iff[of t] Cons show ?thesis by simp
  qed
qed

lemma validate_parsed_iff: "validate_parsed v = Inr () \<longleftrightarrow> well_formed_decomposition v"
proof (cases v)
  case (JObj kvs)
  show ?thesis
  proof (cases "map_of kvs ''subGoals''")
    case None
    with JObj show ?thesis
      by (simp add: validate_parsed_def well_formed_decomposition_def get_prop_def)
  next
    case (Some sgs)
    show ?thesis
    proof (cases sgs)
      case (JArr xs)
      show ?thesis
      proof (cases "map_of kvs ''estimatedDuration''")
        case None
        with JObj Some JArr show ?thesis
          by (simp add: validate_parsed_def well_formed_decomposition_def get_prop_def)
      next
        case d: (Some d)
        with JObj Some JArr show ?thesis
          by (cases d)
            (auto simp: validate_parsed_def well_formed_decomposition_def get_prop_def
               validate_subGoals_iff)
      qed
    qed (use JObj Some in \<open>simp_all add: validate_parsed_def well_formed_decomposition_def get_prop_def\<close>)
  qed
qed (simp_all add: validate_parsed_def well_formed_decomposition_def get_prop_def)

lemma validate_subGoals_first:
  "list_all well_formed_subGoal good \<Longrightarrow>
     validate_subGoals (good @ sg # rest) =
       (case validate_subGoal sg of Inl e \<Rightarrow> Inl e | Inr u \<Rightarrow> validate_subGoals rest)"
proof (induction good)
  case Nil
  show ?case by simp
next
  case (Cons a good)
  then have "validate_subGoal a = Inr ()" by (simp add: validate_subGoal_iff)
  with Cons show ?case by simp
qed

lemma validate_subGoal_failure:
  "\<not> well_formed_subGoal sg \<Longrightarrow> \<exists>f. validate_subGoal sg = Inl f"
  using validate_subGoal_iff[of sg] by (cases "validate_subGoal sg") auto

text \<open>
  Claim C8, amended. The validator accepts a payload exactly when it parses to a well-formed
  decomposition: \<open>subGoals\<close> is a list, which may be empty; \<open>estimatedDuration\<close> is a number
  other than \<open>0\<close> and \<open>NaN\<close>, which may be negative; every subgoal has \<open>id\<close>, \<open>description\<close>
  and a list of tasks, which may be empty; every task has \<open>id\<close>, \<open>name\<close> and \<open>type\<close>. The
  accepted payload is returned as parsed. Every other payload is rejected with
  \<open>InvalidDecompositionFormat\<close>, for the first check that fails: \<open>subGoals\<close> before
  \<open>estimatedDuration\<close>, and these before the subgoals, which are checked in list order.
\<close>

theorem validateDecomposition_accepts_iff:
  "(validateDecomposition JSON_parse content = Inr v \<longleftrightarrow>
      JSON_parse content = Some v \<and> well_formed_decomposition v) \<and>
   (\<not> (\<exists>p. JSON_parse content = Some p \<and> well_formed_decomposition p) \<longrightarrow>
      (\<exists>f. validateDecomposition JSON_parse content = Inl (InvalidDecompositionFormat f))) \<and>
   (\<forall>kvs. JSON_parse content = Some (JObj kvs) \<and>
       \<not> Array_isArray (map_of kvs ''subGoals'') \<longrightarrow>
      validateDecomposition JSON_parse content =
        Inl (InvalidDecompositionFormat MissingOrInvalidSubGoals)) \<and>
   (\<forall>kvs. JSON_parse content = Some (JObj kvs) \<and>
       Array_isArray (map_of kvs ''subGoals'') \<and>
       \<not> (truthy (map_of kvs ''estimatedDuration'') \<and>
          typeof_number (map_of kvs ''estimatedDuration'')) \<longrightarrow>
      validateDecomposition JSON_parse content =
        Inl (InvalidDecompositionFormat MissingOrInvalidEstimatedDuration)) \<and>
   (\<forall>kvs good sg rest. JSON_parse content = Some (JObj kvs) \<and>
       map_of kvs ''subGoals'' = Some (JArr (good @ sg # rest)) \<and>
       truthy (map_of kvs ''estimatedDuration'') \<and>
       typeof_number (map_of kvs ''estimatedDuration'') \<and>
       list_all well_formed_subGoal good \<and> \<not> well_formed_subGoal sg \<longrightarrow>
      (\<exists>f. validate_subGoal sg = Inl f \<and>
           validateDecomposition JSON_parse content = Inl (InvalidDecompositionFormat f)))"
proof (intro conjI allI impI)
  show "validateDecomposition JSON_parse content = Inr v \<longleftrightarrow>
      JSON_parse content = Some v \<and> well_formed_decomposition v"
  proof (cases "JSON_parse content")
    case None
    then show ?thesis by (simp add: validateDecomposition_def)
  next
    case (Some p)
    with validate_parsed_iff[of p] show ?thesis
      by (cases "validate_parsed p") (auto simp: validateDecomposition_def)
  qed
next
  assume n: "\<not> (\<exists>p. JSON_parse content = Some p \<and> well_formed_decomposition p)"
  show "\<exists>f. validateDecomposition JSON_parse content = Inl (InvalidDecompositionFormat f)"
  proof (cases "JSON_parse content")
    case None
    then show ?thesis by (simp add: validateDecomposition_def)
  next
    case (Some p)
    with n validate_parsed_iff[of p] show ?thesis
      by (cases "validate_parsed p") (auto simp: validateDecomposition_def)
  qed
next
  fix kvs
  assume "JSON_parse content = Some (JObj kvs) \<and> \<not> Array_isArray (map_of kvs ''subGoals'')"
  then show "validateDecomposition JSON_parse content =
        Inl (InvalidDecompositionFormat MissingOrInvalidSubGoals)"
    by (simp add: validateDecomposition_def validate_parsed_def get_prop_def)
next
  fix kvs
  assume "JSON_parse content = Some (JObj kvs) \<and>
       Array_isArray (map_of kvs ''subGoals'') \<and>
       \<not> (truthy (map_of kvs ''estimatedDuration'') \<and>
          typeof_number (map_of kvs ''estimatedDuration''))"
  moreover from this obtain xs where "map_of kvs ''subGoals'' = Some (JArr xs)"
    by (cases "map_of kvs ''subGoals''" rule: Array_isArray.cases) auto
  ultimately show "validateDecomposition JSON_parse content =
        Inl (InvalidDecompositionFormat MissingOrInvalidEstimatedDuration)"
    by (auto simp: validateDecomposition_def validate_parsed_def get_prop_def)
next
  fix kvs good sg rest
  assume a: "JSON_parse content = Some (JObj kvs) \<and>
       map_of kvs ''subGoals'' = Some (JArr (good @ sg # rest)) \<and>
       truthy (map_of kvs ''estimatedDuration'') \<and>
       typeof_number (map_of kvs ''estimatedDuration'') \<and>
       list_all well_formed_subGoal good \<and> \<not> well_formed_subGoal sg"
  then obtain f where f: "validate_subGoal sg = Inl f" using validate_subGoal_failure by blast
  from a have "validate_subGoals (good @ sg # rest) = Inl f"
    by (simp add: validate_subGoals_first f)
  with a f show "\<exists>f. validate_subGoal sg = Inl f \<and>
           validateDecomposition JSON_parse content = Inl (InvalidDecompositionFormat f)"
    by (simp add: validateDecomposition_def validate_parsed_def get_prop_def)
qed

theorem validateDecomposition_accepts_iff_witness:
  "validateDecomposition (parse_as payload_empty_tasks) [] = Inr payload_empty_tasks \<and>
   parse_as payload_empty_tasks [] = Some payload_empty_tasks \<and>
   well_formed_decomposition payload_empty_tasks"
proof -
  have a: "parse_as payload_empty_tasks [] = Some payload_empty_tasks"
    by (simp add: parse_as_def)
  have b: "well_formed_decomposition payload_empty_tasks" by code_simp
  from validateDecomposition_accepts_iff[of "parse_as payload_empty_tasks" "[]" payload_empty_tasks]
    a b show ?thesis by simp
qed

text \<open>
  The claim as stated fails on each of its three examples: a payload with no subgoal, a
  payload with the estimated duration \<open>-5\<close>, and a payload whose subgoal has no task are all
  accepted.
\<close>

theorem validateDecomposition_counterexample:
  "validateDecomposition (parse_as payload_empty_subGoals) [] = Inr payload_empty_subGoals \<and>
   validateDecomposition (parse_as payload_negative_duration) [] = Inr payload_negative_duration \<and>
   validateDecomposition (parse_as payload_empty_tasks) [] = Inr payload_empty_tasks"
  by code_simp

section \<open>Reflection on a run without finished tasks\<close>

text \<open>
  Claim C9. The claim asks for a success rate of \<open>0\<close>, and so for weaknesses, when no task
  completed and none failed. The division is not guarded: for every such result the success
  rate is \<open>0 / 0\<close>, that is \<open>NaN\<close>, both comparisons with it are false, and the reflection
  reports neither strengths nor weaknesses.
\<close>

theorem reflectOnPerformance_no_tasks_NaN:
  "successRate (r\<lparr>completedTasks := [], failedTasks := []\<rparr>) = NaN \<and>
   strengths (reflectOnPerformance (r\<lparr>completedTasks := [], failedTasks := []\<rparr>)) = [] \<and>
   weaknesses (reflectOnPerformance (r\<lparr>completedTasks := [], failedTasks := []\<rparr>)) = []"
  by (simp add: successRate_def reflectOnPerformance_def analyzePerformance_def js_gt_def Let_def)

section \<open>The constraints of a plan\<close>

lemma createCheckpoints_without_ids:
  "map (\<lambda>c. c\<lparr>cp_id := []\<rparr>) (createCheckpoints tasks ord u1) =
   map (\<lambda>c. c\<lparr>cp_id := []\<rparr>) (createCheckpoints tasks ord u2)"
  by (simp add: createCheckpoints_def Let_def case_prod_unfold)

text \<open>
  Claim C10. The constraints have no effect on the plan: with the same identifiers and the
  same time, two sets of constraints give the same result, and with any identifiers and times
  the two results are the same error or plans that differ in the generated ids and the
  creation time only.
\<close>

theorem createExecutionPlan_ignores_constraints:
  "createExecutionPlan tasks c1 uuidv4 now = createExecutionPlan tasks c2 uuidv4 now \<and>
   map_sum id without_ids (createExecutionPlan tasks c1 uuidv4 now) =
   map_sum id without_ids (createExecutionPlan tasks c2 uuidv4' now')"
proof (cases "calculateExecutionOrder (buildDependencyGraph tasks) c1")
  case (Inl e)
  then show ?thesis
    by (simp add: createExecutionPlan_def calculateExecutionOrder_def)
next
  case (Inr ord)
  then have "calculateExecutionOrder (buildDependencyGraph tasks) c2 = Inr ord"
    by (simp add: calculateExecutionOrder_def)
  with Inr createCheckpoints_without_ids[of tasks ord uuidv4 uuidv4'] show ?thesis
    by (simp add: createExecutionPlan_def Let_def without_ids_def allocateResources_def)
qed

end
